theory Spec2Isabelle
  imports Main
begin

section \<open>The lexer of package parse (hash/parse/lex.go)\<close>

text \<open>
  Positions (Go type \<open>Pos\<close>, an int that is never negative here) are natural numbers.
  Strings are byte strings, as in Go: \<open>string\<close> is a list of \<open>char\<close>.
\<close>

datatype tokenType = tokenError | tokenPrefix | tokenDollar | tokenComma | tokenValue | tokenEOF

record token =
  tType :: tokenType
  tPos :: nat
  tValue :: string

text \<open>
  The lexer state. The channel \<open>tokens\<close> of the source is the list of tokens that the
  state functions return, in the order in which they are sent.
\<close>

record lexer =
  input :: string
  pos :: nat
  start :: nat

text \<open>\<open>strings.HasPrefix(s, prefix)\<close>.\<close>

definition HasPrefix :: "string \<Rightarrow> string \<Rightarrow> bool" where
  "HasPrefix s p = (take (length p) s = p)"

text \<open>
  \<open>strings.IndexAny(s, chars)\<close> for ASCII \<open>chars\<close>, where Go compares byte by byte:
  the index of the first byte of \<open>s\<close> that occurs in \<open>chars\<close>; \<open>None\<close> is Go's -1.
\<close>

primrec IndexAny :: "string \<Rightarrow> string \<Rightarrow> nat option" where
  "IndexAny [] chars = None"
| "IndexAny (c # cs) chars =
     (if c \<in> set chars then Some 0 else map_option Suc (IndexAny cs chars))"

definition delimChars :: string where
  "delimChars = ''$,''"

text \<open>\<open>l.input[l.start:l.pos]\<close>; the lexer keeps \<open>start \<le> pos \<le> len(input)\<close>.\<close>

definition emit :: "tokenType \<Rightarrow> lexer \<Rightarrow> token \<times> lexer" where
  "emit t l =
     (\<lparr>tType = t, tPos = start l,
       tValue = take (pos l - start l) (drop (start l) (input l))\<rparr>,
      l\<lparr>start := pos l\<rparr>)"

definition errorf :: "string \<Rightarrow> lexer \<Rightarrow> token" where
  "errorf msg l = \<lparr>tType = tokenError, tPos = pos l, tValue = msg\<rparr>"

text \<open>
  \<open>lexPrefix\<close> returns the tokens it sent and the lexer for the next state function
  \<open>lexFragment\<close>, or \<open>None\<close> where the source returns the nil state (after \<open>errorf\<close>).
  The two \<open>if\<close> statements of the source run one after the other.
\<close>

definition lexPrefix :: "lexer \<Rightarrow> token list \<times> lexer option" where
  "lexPrefix l =
     (let r1 =
        (if HasPrefix (drop (pos l) (input l)) ''$'' then
           (let l1 = l\<lparr>pos := pos l + 1\<rparr> in
            case IndexAny (drop (pos l1) (input l1)) delimChars of
              Some i \<Rightarrow>
                if i = 0 then ([errorf ''missing prefix identifier'' l1], None)
                else (let l2 = l1\<lparr>pos := pos l1 + (i + 1)\<rparr>;
                          (t, l3) = emit tokenPrefix l2
                      in ([t], Some l3))
            | None \<Rightarrow>
                (let l2 = l1\<lparr>pos := length (input l1)\<rparr>
                 in ([errorf ''missing prefix end'' l2], None)))
         else ([], Some l))
      in case snd r1 of
           None \<Rightarrow> r1
         | Some l4 \<Rightarrow>
             if HasPrefix (drop (pos l4) (input l4)) ''_'' then
               (let l5 = l4\<lparr>pos := pos l4 + 1\<rparr>;
                    (t, l6) = emit tokenPrefix l5
                in (fst r1 @ [t], Some l6))
             else (fst r1, Some l4))"

text \<open>
  One round of \<open>lexFragment\<close> when a delimiter is found at offset \<open>i\<close>: the value
  before it, then \<open>l.Next()\<close> and the token of the delimiter.
\<close>

definition lexDelim :: "lexer \<Rightarrow> nat \<Rightarrow> token list \<times> lexer" where
  "lexDelim l i =
     (let l1 = l\<lparr>pos := pos l + i\<rparr>;
          (t1, l2) = emit tokenValue l1;
          c = input l2 ! pos l2;
          l3 = l2\<lparr>pos := pos l2 + 1\<rparr>
      in if c = CHR ''$'' then (let (t2, l4) = emit tokenDollar l3 in ([t1, t2], l4))
         else if c = CHR '','' then (let (t2, l4) = emit tokenComma l3 in ([t1, t2], l4))
         else ([t1], l3))"

definition lexRest :: "lexer \<Rightarrow> token list" where
  "lexRest l =
     (let l1 = l\<lparr>pos := length (input l)\<rparr>;
          (ts, l2) = (if pos l1 > start l1
                      then (let (t, l') = emit tokenValue l1 in ([t], l'))
                      else ([], l1));
          (t, l3) = emit tokenEOF l2
      in ts @ [t])"

lemma IndexAny_less: "IndexAny s chars = Some i \<Longrightarrow> i < length s"
  by (induction s arbitrary: i) (auto split: if_splits)

lemma lexDelim_pos: "pos (snd (lexDelim l i)) = pos l + i + 1"
  by (simp add: lexDelim_def emit_def Let_def)

lemma lexDelim_input: "input (snd (lexDelim l i)) = input l"
  by (simp add: lexDelim_def emit_def Let_def)

function lexFragment :: "lexer \<Rightarrow> token list" where
  "lexFragment l =
     (case IndexAny (drop (pos l) (input l)) delimChars of
        Some i \<Rightarrow> fst (lexDelim l i) @ lexFragment (snd (lexDelim l i))
      | None \<Rightarrow> lexRest l)"
  by pat_completeness auto
termination
proof (relation "measure (\<lambda>l. length (input l) - pos l)")
  show "wf (measure (\<lambda>l. length (input l) - pos l))" by simp
next
  fix l :: lexer and i :: nat
  assume "IndexAny (drop (pos l) (input l)) delimChars = Some i"
  then have "i < length (input l) - pos l"
    using IndexAny_less by fastforce
  then show "(snd (lexDelim l i), l) \<in> measure (\<lambda>l. length (input l) - pos l)"
    by (simp add: lexDelim_pos lexDelim_input)
qed

declare lexFragment.simps [simp del]

text \<open>\<open>lex\<close> and \<open>run\<close>: the tokens sent before the channel is closed.\<close>

definition lex :: "string \<Rightarrow> token list" where
  "lex inp =
     (let l = \<lparr>input = inp, pos = 0, start = 0\<rparr>
      in case lexPrefix l of
           (ts, None) \<Rightarrow> ts
         | (ts, Some l') \<Rightarrow> ts @ lexFragment l')"

section \<open>Parse trees (hash/parse/node.go) and the parser (hash/parse/parse.go)\<close>

record PrefixNode =
  Text :: string
  pEnd :: nat

record ValueNode =
  Value :: string
  vPos :: nat
  vEnd :: nat

text \<open>A fragment is a \<open>*ValueNode\<close> or a \<open>*GroupNode\<close>, whose only field is \<open>Values\<close>.\<close>

datatype FragmentNode = FValue ValueNode | FGroup "ValueNode list"

record Tree =
  Prefix :: "PrefixNode option"
  Fragments :: "FragmentNode list"

record SyntaxError =
  seOffset :: nat
  seMsg :: string

text \<open>The local variables of \<open>Parse\<close>: the tree, the open group and the pending value.\<close>

record parser =
  tree :: Tree
  pgroup :: "ValueNode list option"
  pvalue :: "ValueNode option"

text \<open>
  One round of the loop of \<open>Parse\<close>: the switch on the token type. \<open>Inl\<close> is a
  return (the error, or the tree at \<open>break Loop\<close>), \<open>Inr\<close> the next round. At a comma
  the pending value is never nil, since \<open>lexFragment\<close> sends a value before every
  delimiter; the model appends nothing there. Reading from the closed channel gives the
  zero token, whose type is \<open>tokenError\<close>: the case of the empty list in \<open>ParseLoop\<close>.
\<close>

definition ParseToken :: "token \<Rightarrow> parser \<Rightarrow> (SyntaxError + Tree) + parser" where
  "ParseToken t p =
     (case tType t of
        tokenError \<Rightarrow> Inl (Inl \<lparr>seOffset = tPos t, seMsg = tValue t\<rparr>)
      | tokenPrefix \<Rightarrow>
          Inr (p\<lparr>tree := (tree p)\<lparr>Prefix :=
                   Some \<lparr>Text = tValue t, pEnd = length (tValue t)\<rparr>\<rparr>\<rparr>)
      | tokenComma \<Rightarrow>
          Inr (p\<lparr>pgroup := Some ((case pgroup p of None \<Rightarrow> [] | Some g \<Rightarrow> g) @
                                 (case pvalue p of None \<Rightarrow> [] | Some v \<Rightarrow> [v])),
                 pvalue := None\<rparr>)
      | tokenValue \<Rightarrow>
          Inr (p\<lparr>pvalue := Some \<lparr>Value = tValue t, vPos = tPos t,
                                  vEnd = tPos t + length (tValue t)\<rparr>\<rparr>)
      | _ \<Rightarrow>
          (let p' = (case pvalue p of
                       None \<Rightarrow> p
                     | Some v \<Rightarrow>
                         (case pgroup p of
                            Some g \<Rightarrow>
                              p\<lparr>tree := (tree p)\<lparr>Fragments :=
                                           Fragments (tree p) @ [FGroup (g @ [v])]\<rparr>,
                                pgroup := None, pvalue := None\<rparr>
                          | None \<Rightarrow>
                              p\<lparr>tree := (tree p)\<lparr>Fragments :=
                                           Fragments (tree p) @ [FValue v]\<rparr>,
                                pvalue := None\<rparr>))
           in if tType t = tokenEOF then Inl (Inr (tree p')) else Inr p'))"

fun ParseLoop :: "token list \<Rightarrow> parser \<Rightarrow> SyntaxError + Tree" where
  "ParseLoop [] p = Inl \<lparr>seOffset = 0, seMsg = ''''\<rparr>"
| "ParseLoop (t # ts) p =
     (case ParseToken t p of Inl r \<Rightarrow> r | Inr p' \<Rightarrow> ParseLoop ts p')"

definition Parse :: "string \<Rightarrow> SyntaxError + Tree" where
  "Parse hash =
     ParseLoop (lex hash)
       \<lparr>tree = \<lparr>Prefix = None, Fragments = []\<rparr>, pgroup = None, pvalue = None\<rparr>"

section \<open>Go types and values seen through package reflect\<close>

text \<open>
  The types a struct field can have. \<open>TInt n\<close> and \<open>TUint n\<close> are the signed and unsigned
  integer kinds of \<open>n\<close> bits (\<open>int\<close> and \<open>uint\<close> have 64 bits), \<open>TUint 8\<close> is
  \<open>byte\<close>. A struct type is the list of its fields; an embedded struct is held by value
  or through one pointer. Types with methods \<open>MarshalText\<close> or \<open>UnmarshalText\<close>,
  interface types and recursive struct types are outside this universe.
  \<open>sfTag\<close> is the result of \<open>Tag.Get("hash")\<close>.
\<close>

datatype gotype =
    TString
  | TInt nat
  | TUint nat
  | TBool
  | TArray nat gotype
  | TSlice gotype
  | TPtr gotype
  | TStruct "sfield list"
and sfield =
    SField (sfName: string) (sfPkgPath: string) (sfAnonymous: bool) (sfType: gotype)
      (sfTag: string)

datatype goval =
    VString string
  | VInt int
  | VUint nat
  | VBool bool
  | VBytes string
  | VPtr "goval option"
  | VSeq nat
  | VStruct

text \<open>
  A struct value: the value of the field at each index path. \<open>VBytes\<close> holds a byte
  array or a byte slice, \<open>VSeq n\<close> stands for an array or slice of \<open>n\<close> elements of
  another type, \<open>VStruct\<close> for a struct held in a field that is not embedded. At the
  index path of an embedded pointer to a struct the value is \<open>VPtr None\<close> when the pointer
  is nil.
\<close>

type_synonym gostruct = "nat list \<Rightarrow> goval"

fun zeroValue :: "gotype \<Rightarrow> goval" where
  "zeroValue TString = VString []"
| "zeroValue (TInt n) = VInt 0"
| "zeroValue (TUint n) = VUint 0"
| "zeroValue TBool = VBool False"
| "zeroValue (TArray n t) = (if t = TUint 8 then VBytes (replicate n (CHR 0x00)) else VSeq n)"
| "zeroValue (TSlice t) = (if t = TUint 8 then VBytes [] else VSeq 0)"
| "zeroValue (TPtr t) = VPtr None"
| "zeroValue (TStruct fs) = VStruct"

text \<open>\<open>indirectType\<close>: strip every pointer.\<close>

fun indirectType :: "gotype \<Rightarrow> gotype" where
  "indirectType (TPtr t) = indirectType t"
| "indirectType t = t"

section \<open>Package strconv of the Go standard library\<close>

text \<open>
  The standard library is not part of the repository. \<open>ParseUint\<close>, \<open>ParseInt\<close>,
  \<open>FormatUint\<close> and \<open>FormatInt\<close> are modelled from its documentation, for the bases 2 to
  36 that the repository passes: digits and letters of either case, no underscore, no
  base prefix, an optional sign for \<open>ParseInt\<close>; the first offending byte decides between
  a syntax error and a range error. Any other base is answered with \<open>ErrBase\<close> (the
  schema compiler only stores bases from 2 to 36).
\<close>

datatype numError = ErrSyntax | ErrRange | ErrBase

definition digitVal :: "char \<Rightarrow> nat option" where
  "digitVal c =
     (let n = of_char c :: nat in
      if 48 \<le> n \<and> n \<le> 57 then Some (n - 48)
      else if 97 \<le> n \<and> n \<le> 122 then Some (n - 97 + 10)
      else if 65 \<le> n \<and> n \<le> 90 then Some (n - 65 + 10)
      else None)"

fun parseDigits :: "string \<Rightarrow> nat \<Rightarrow> nat \<Rightarrow> nat \<Rightarrow> numError + nat" where
  "parseDigits [] base maxVal n = Inr n"
| "parseDigits (c # cs) base maxVal n =
     (case digitVal c of
        None \<Rightarrow> Inl ErrSyntax
      | Some d \<Rightarrow>
          if d \<ge> base then Inl ErrSyntax
          else if n * base + d > maxVal then Inl ErrRange
          else parseDigits cs base maxVal (n * base + d))"

definition ParseUint :: "string \<Rightarrow> nat \<Rightarrow> nat \<Rightarrow> numError + nat" where
  "ParseUint s base bitSize =
     (if s = [] then Inl ErrSyntax
      else if base < 2 \<or> base > 36 then Inl ErrBase
      else parseDigits s base (2 ^ bitSize - 1) 0)"

definition ParseInt :: "string \<Rightarrow> nat \<Rightarrow> nat \<Rightarrow> numError + int" where
  "ParseInt s base bitSize =
     (if s = [] then Inl ErrSyntax
      else
        (let neg = (hd s = CHR ''-'');
             s1 = (if hd s = CHR ''+'' \<or> hd s = CHR ''-'' then tl s else s);
             cutoff = 2 ^ (bitSize - 1)
         in case ParseUint s1 base bitSize of
              Inl e \<Rightarrow> Inl e
            | Inr un \<Rightarrow>
                if \<not> neg \<and> un \<ge> cutoff then Inl ErrRange
                else if neg \<and> un > cutoff then Inl ErrRange
                else Inr (if neg then - int un else int un)))"

definition digitChar :: "nat \<Rightarrow> char" where
  "digitChar d = ''0123456789abcdefghijklmnopqrstuvwxyz'' ! d"

function formatDigits :: "nat \<Rightarrow> nat \<Rightarrow> string" where
  "formatDigits n base =
     (if base < 2 \<or> n < base then [digitChar n]
      else formatDigits (n div base) base @ [digitChar (n mod base)])"
  by pat_completeness auto
termination
  by (relation "measure (\<lambda>(n, base). n)") auto

declare formatDigits.simps [simp del]

definition FormatUint :: "nat \<Rightarrow> nat \<Rightarrow> string" where
  "FormatUint n base = formatDigits n base"

definition FormatInt :: "int \<Rightarrow> nat \<Rightarrow> string" where
  "FormatInt i base =
     (if i < 0 then CHR ''-'' # formatDigits (nat (- i)) base else formatDigits (nat i) base)"

section \<open>The alphabets of package hashutil\<close>

datatype Encoding = HashEncoding | Base64Encoding

definition encoderHash :: string where
  "encoderHash = ''./0123456789ABCDEFGHIJKLMNOPQRSTUVWXYZabcdefghijklmnopqrstuvwxyz''"

definition encoderBase64 :: string where
  "encoderBase64 = ''ABCDEFGHIJKLMNOPQRSTUVWXYZabcdefghijklmnopqrstuvwxyz0123456789+/''"

definition encoder :: "Encoding \<Rightarrow> string" where
  "encoder e = (case e of HashEncoding \<Rightarrow> encoderHash | Base64Encoding \<Rightarrow> encoderBase64)"

text \<open>
  \<open>IndexAnyInvalid\<close> returns the index of the first byte outside the alphabet (a byte is
  in \<open>decodeMap\<close> exactly when it occurs in \<open>encoder\<close>); \<open>None\<close> is -1.
\<close>

primrec IndexAnyInvalid :: "Encoding \<Rightarrow> string \<Rightarrow> nat option" where
  "IndexAnyInvalid e [] = None"
| "IndexAnyInvalid e (c # cs) =
     (if c \<notin> set (encoder e) then Some 0 else map_option Suc (IndexAnyInvalid e cs))"

section \<open>The schema compiler (hash/typeinfo.go)\<close>

record fieldOpts =
  oPrefix :: bool
  OmitEmpty :: bool
  Group :: bool
  Param :: string
  oEncoding :: "Encoding option"
  Length :: nat
  Inline :: bool
  Base :: nat

record fieldInfo =
  Index :: "nat list"
  Name :: string
  fType :: gotype
  Opts :: fieldOpts

record typeInfo =
  tiStruct :: gotype
  tiType :: gotype
  HashPrefix :: "fieldInfo option"
  Fields :: "fieldInfo list"
  NumReqValues :: int

record TagParamError =
  tpStruct :: gotype
  Field1 :: string
  Field2 :: string
  Tag1 :: string
  Tag2 :: string

text \<open>
  The message of an \<open>UnmarshalTypeError\<close> or an \<open>UnsupportedValueError\<close>: a literal text,
  \<open>"invalid character " + strconv.QuoteRuneToASCII(c)\<close>, or the text of the
  \<open>strconv.NumError\<close> of the named function on the given input.
\<close>

datatype message = Msg string | InvalidCharacter char | NumErrorText string string numError

record UnmarshalTypeError =
  ueValue :: string
  ueType :: gotype
  ueOffset :: nat
  ueStruct :: "gotype option"
  ueField :: string
  ueMsg :: message

text \<open>
  Every error the package returns, and \<open>Panic\<close> for a run-time panic of the Go program.
  \<open>InvalidTag\<close> is the \<open>errors.New("invalid tag in field ...")\<close> of \<open>normalize\<close>, with
  the struct type, the field name and the tag; \<open>UnsupportedType\<close> carries the type, the
  struct and the field, \<open>UnsupportedValue\<close> the struct, the field and the message.
\<close>

datatype error =
    Syntax SyntaxError
  | TagParam TagParamError
  | InvalidTag gotype string string
  | UnmarshalType UnmarshalTypeError
  | UnsupportedType gotype "gotype option" string
  | UnsupportedValue gotype string message
  | Panic string

definition hashPrefix :: string where
  "hashPrefix = ''HashPrefix''"

text \<open>
  \<open>reflect.Type.FieldByIndex\<close>: the nested field at an index path, stepping through a
  pointer to a struct. It panics on a path that names no field (\<open>None\<close>).
\<close>

fun FieldByIndex :: "gotype \<Rightarrow> nat list \<Rightarrow> sfield option" where
  "FieldByIndex t [] = None"
| "FieldByIndex t (i # is) =
     (case (case t of TPtr (TStruct fs) \<Rightarrow> Some fs | TStruct fs \<Rightarrow> Some fs | _ \<Rightarrow> None) of
        None \<Rightarrow> None
      | Some fs \<Rightarrow>
          if i < length fs
          then (if is = [] then Some (fs ! i) else FieldByIndex (sfType (fs ! i)) is)
          else None)"

definition tagOf :: "gotype \<Rightarrow> nat list \<Rightarrow> string" where
  "tagOf t idx = (case FieldByIndex t idx of Some sf \<Rightarrow> sfTag sf | None \<Rightarrow> [])"

text \<open>
  \<open>reflect.Value.FieldByIndex\<close> on a struct value \<open>v\<close>: \<open>t\<close> is the type of the value
  reached so far, \<open>p\<close> its index path (empty for the struct itself). After the first
  step a pointer to a struct is followed, and a nil pointer there panics; \<open>Field\<close> panics
  on a value that is not a struct and on an index out of range.
\<close>

fun ValueFieldByIndex :: "gotype \<Rightarrow> gostruct \<Rightarrow> nat list \<Rightarrow> nat list \<Rightarrow> error + goval" where
  "ValueFieldByIndex t v p [] = Inr (v p)"
| "ValueFieldByIndex t v p (x # xs) =
     (case (case t of
              TPtr (TStruct fs) \<Rightarrow>
                if p = [] then Inr t
                else if v p = VPtr None
                then Inl (Panic ''reflect: indirection through nil pointer to embedded struct'')
                else Inr (TStruct fs)
            | _ \<Rightarrow> Inr t) of
        Inl e \<Rightarrow> Inl e
      | Inr t1 \<Rightarrow>
          (case t1 of
             TStruct fs \<Rightarrow>
               if x < length fs then ValueFieldByIndex (sfType (fs ! x)) v (p @ [x]) xs
               else Inl (Panic ''reflect: Field index out of range'')
           | _ \<Rightarrow> Inl (Panic ''reflect: call of reflect.Value.Field on non-struct Value'')))"

text \<open>
  The flag \<open>flagRO\<close> of the value \<open>val.FieldByIndex(idx)\<close>: it was obtained through an
  unexported field when the last field of the path is unexported (\<open>Field\<close> does not pass
  on the flag of an embedded field). Such a value can be read, and every \<open>Set\<close> method
  panics on it, as does \<open>reflect.Copy\<close> from it.
\<close>

definition readOnly :: "gotype \<Rightarrow> nat list \<Rightarrow> bool" where
  "readOnly t idx = (case FieldByIndex t idx of Some sf \<Rightarrow> sfPkgPath sf \<noteq> [] | None \<Rightarrow> False)"

definition unexportedPanic :: error where
  "unexportedPanic = Panic ''reflect: value obtained using unexported field''"

subsection \<open>\<open>typeInfo.field\<close>\<close>

text \<open>
  The first loop of \<open>field\<close>: \<open>fs\<close> is the rest of \<open>ti.Fields\<close>, \<open>acc\<close> the slice
  \<open>fields\<close> collected so far. \<open>findSameDepth\<close> is the inner loop, which returns at the
  first collected field of the same depth.
\<close>

definition findSameDepth :: "fieldInfo \<Rightarrow> fieldInfo list \<Rightarrow> fieldInfo option" where
  "findSameDepth fi1 acc = find (\<lambda>fi2. length (Index fi1) = length (Index fi2)) acc"

fun fieldCollect ::
  "typeInfo \<Rightarrow> string \<Rightarrow> fieldInfo list \<Rightarrow> fieldInfo list \<Rightarrow> error + fieldInfo list" where
  "fieldCollect ti param [] acc = Inr acc"
| "fieldCollect ti param (fi1 # fs) acc =
     (if Param (Opts fi1) \<noteq> param then fieldCollect ti param fs acc
      else case findSameDepth fi1 acc of
             Some fi2 \<Rightarrow>
               Inl (TagParam \<lparr>tpStruct = tiStruct ti,
                              Field1 = Name fi1, Field2 = Name fi2,
                              Tag1 = tagOf (tiType ti) (Index fi1),
                              Tag2 = tagOf (tiType ti) (Index fi2)\<rparr>)
           | None \<Rightarrow> fieldCollect ti param fs (acc @ [fi1]))"

text \<open>The comparison function given to \<open>sort.Slice\<close>.\<close>

fun indexLess :: "nat list \<Rightarrow> nat list \<Rightarrow> bool" where
  "indexLess [] js = False"
| "indexLess (v # is) [] = False"
| "indexLess (v # is) (w # js) = (if v \<noteq> w then v < w else indexLess is js)"

definition fieldLess :: "fieldInfo \<Rightarrow> fieldInfo \<Rightarrow> bool" where
  "fieldLess a b =
     (if length (Index a) \<noteq> length (Index b) then length (Index a) < length (Index b)
      else indexLess (Index a) (Index b))"

text \<open>
  \<open>sort.Slice\<close> as an insertion sort. The fields that \<open>field\<close> sorts have pairwise
  different depths, so the order of the result does not depend on the algorithm.
\<close>

fun insertField :: "fieldInfo \<Rightarrow> fieldInfo list \<Rightarrow> fieldInfo list" where
  "insertField a [] = [a]"
| "insertField a (b # bs) = (if fieldLess b a then b # insertField a bs else a # b # bs)"

definition sortFields :: "fieldInfo list \<Rightarrow> fieldInfo list" where
  "sortFields fs = foldr insertField fs []"

definition field :: "typeInfo \<Rightarrow> string \<Rightarrow> error + fieldInfo" where
  "field ti param =
     (case fieldCollect ti param (Fields ti) [] of
        Inl e \<Rightarrow> Inl e
      | Inr collected \<Rightarrow>
          (case sortFields collected of
             [] \<Rightarrow> Inl (Panic ''index out of range'')
           | f # _ \<Rightarrow> Inr f))"

subsection \<open>\<open>typeInfo.normalize\<close>\<close>

definition isValid :: "fieldInfo \<Rightarrow> bool" where
  "isValid f =
     ((OmitEmpty (Opts f) \<longrightarrow> \<not> Inline (Opts f)) \<and>
      (Group (Opts f) \<longrightarrow> Param (Opts f) \<noteq> []) \<and>
      (Param (Opts f) \<noteq> [] \<longrightarrow> \<not> oPrefix (Opts f)) \<and>
      (Inline (Opts f) \<longrightarrow> \<not> oPrefix (Opts f) \<and> Length (Opts f) > 0))"

text \<open>
  The loop of \<open>normalize\<close>: \<open>ti\<close> carries \<open>HashPrefix\<close> and \<open>NumReqValues\<close> as updated so
  far and the unchanged \<open>Fields\<close>; \<open>acc\<close> is the local slice \<open>fields\<close>, \<open>params\<close> the
  keys of the local map.
\<close>

fun normalizeLoop ::
  "typeInfo \<Rightarrow> fieldInfo list \<Rightarrow> fieldInfo list \<Rightarrow> string set \<Rightarrow> error + typeInfo" where
  "normalizeLoop ti [] acc params = Inr (ti\<lparr>Fields := acc\<rparr>)"
| "normalizeLoop ti (f # fs) acc params =
     (if \<not> isValid f then Inl (InvalidTag (tiStruct ti) (Name f) (tagOf (tiType ti) (Index f)))
      else if oPrefix (Opts f) then normalizeLoop (ti\<lparr>HashPrefix := Some f\<rparr>) fs acc params
      else
        (let ti1 = (if \<not> Group (Opts f) \<and> \<not> OmitEmpty (Opts f) \<and> \<not> Inline (Opts f)
                    then ti\<lparr>NumReqValues := NumReqValues ti + 1\<rparr> else ti)
         in if Param (Opts f) = [] then normalizeLoop ti1 fs (acc @ [f]) params
            else if Param (Opts f) \<in> params then normalizeLoop ti1 fs acc params
            else case field ti1 (Param (Opts f)) of
                   Inl e \<Rightarrow> Inl e
                 | Inr fi \<Rightarrow> normalizeLoop ti1 fs (acc @ [fi]) (insert (Param (Opts f)) params)))"

definition normalize :: "typeInfo \<Rightarrow> error + typeInfo" where
  "normalize ti = normalizeLoop ti (Fields ti) [] {}"

subsection \<open>\<open>getRawTypeInfo\<close> and \<open>getTypeInfo\<close>\<close>

primrec IndexByte :: "string \<Rightarrow> char \<Rightarrow> nat option" where
  "IndexByte [] c = None"
| "IndexByte (x # xs) c = (if x = c then Some 0 else map_option Suc (IndexByte xs c))"

lemma IndexByte_less: "IndexByte s c = Some i \<Longrightarrow> i < length s"
  by (induction s arbitrary: i) (auto split: if_splits)

text \<open>The parts that the loop \<open>for tag != ""\<close> cuts off the tag, in order.\<close>

function tagParts :: "string \<Rightarrow> string list" where
  "tagParts tag =
     (if tag = [] then []
      else case IndexByte tag (CHR '','') of
             None \<Rightarrow> [tag]
           | Some i \<Rightarrow> take i tag # tagParts (drop (i + 1) tag))"
  by pat_completeness auto
termination
proof (relation "measure length")
  show "wf (measure length)" by simp
next
  fix tag :: string and i :: nat
  assume "tag \<noteq> []" and "IndexByte tag (CHR '','') = Some i"
  then have "i < length tag" by (simp add: IndexByte_less)
  then show "(drop (i + 1) tag, tag) \<in> measure length" by simp
qed

declare tagParts.simps [simp del]

text \<open>The switch on one part of the tag.\<close>

definition applyPart :: "fieldOpts \<Rightarrow> string \<Rightarrow> fieldOpts" where
  "applyPart opts part =
     (if HasPrefix part ''param:'' then opts\<lparr>Param := drop 6 part\<rparr>
      else if part = ''omitempty'' then opts\<lparr>OmitEmpty := True\<rparr>
      else if part = ''group'' then opts\<lparr>Group := True\<rparr>
      else if HasPrefix part ''length:'' then
        (case ParseUint (drop 7 part) 10 32 of
           Inr v \<Rightarrow> if Length opts = 0 \<or> v < Length opts then opts\<lparr>Length := v\<rparr> else opts
         | Inl e \<Rightarrow> opts)
      else if part = ''inline'' then opts\<lparr>Inline := True\<rparr>
      else if HasPrefix part ''base:'' then
        (case ParseUint (drop 5 part) 10 8 of
           Inr i \<Rightarrow> if i \<ge> 2 \<and> i \<le> 36 then opts\<lparr>Base := i\<rparr> else opts
         | Inl e \<Rightarrow> opts)
      else if HasPrefix part ''enc:'' then
        (if drop 4 part = ''base64'' then opts\<lparr>oEncoding := Some Base64Encoding\<rparr>
         else if drop 4 part = ''none'' then opts\<lparr>oEncoding := None\<rparr>
         else opts)
      else opts)"

text \<open>
  The options of a field before its tag is read: the hash alphabet and base 10; no
  alphabet for the field named \<open>HashPrefix\<close>; the length of a byte array.
\<close>

definition initialOpts :: "string \<Rightarrow> gotype \<Rightarrow> fieldOpts" where
  "initialOpts name t =
     (let o1 = \<lparr>oPrefix = False, OmitEmpty = False, Group = False, Param = [],
                oEncoding = Some HashEncoding, Length = 0, Inline = False, Base = 10\<rparr>;
          o2 = (if name = hashPrefix then o1\<lparr>oPrefix := True, oEncoding := None\<rparr> else o1)
      in case indirectType t of
           TArray n el \<Rightarrow> if el = TUint 8 then o2\<lparr>Length := n\<rparr> else o2
         | _ \<Rightarrow> o2)"

definition rawField :: "nat \<Rightarrow> string \<Rightarrow> gotype \<Rightarrow> string \<Rightarrow> fieldInfo" where
  "rawField i name t tag =
     \<lparr>Index = [i], Name = name, fType = t,
      Opts = foldl applyPart (initialOpts name t) (tagParts tag)\<rparr>"

text \<open>
  The loop of \<open>getRawTypeInfo\<close> over the fields of a struct, from field number \<open>i\<close>:
  \<open>rawFields\<close> is the loop, \<open>rawOfField\<close> its body, and \<open>rawEmbedded\<close> strips the
  pointers of an embedded field and gives the fields of the struct below them, if any.
\<close>

fun rawEmbedded :: "gotype \<Rightarrow> fieldInfo list option"
  and rawFields :: "sfield list \<Rightarrow> nat \<Rightarrow> fieldInfo list"
  and rawOfField :: "sfield \<Rightarrow> nat \<Rightarrow> fieldInfo list" where
  "rawEmbedded (TPtr t) = rawEmbedded t"
| "rawEmbedded (TStruct fs) = Some (rawFields fs 0)"
| "rawEmbedded TString = None"
| "rawEmbedded (TInt n) = None"
| "rawEmbedded (TUint n) = None"
| "rawEmbedded TBool = None"
| "rawEmbedded (TArray n t) = None"
| "rawEmbedded (TSlice t) = None"
| "rawFields [] i = []"
| "rawFields (sf # sfs) i = rawOfField sf i @ rawFields sfs (Suc i)"
| "rawOfField (SField name pkg anon t tag) i =
     (if (pkg \<noteq> [] \<and> \<not> anon) \<or> tag = ''-'' then []
      else if anon then
        (case rawEmbedded t of
           Some fis \<Rightarrow> map (\<lambda>fi. fi\<lparr>Index := i # Index fi\<rparr>) fis
         | None \<Rightarrow> [rawField i name t tag])
      else [rawField i name t tag])"

definition getRawTypeInfo :: "gotype \<Rightarrow> typeInfo" where
  "getRawTypeInfo t =
     \<lparr>tiStruct = t, tiType = t, HashPrefix = None,
      Fields = (case t of TStruct fs \<Rightarrow> rawFields fs 0 | _ \<Rightarrow> []),
      NumReqValues = 0\<rparr>"

text \<open>
  \<open>getTypeInfo\<close> without the cache, which only saves compiling a type again.
  \<open>NumField\<close> panics on a type that is not a struct.
\<close>

definition getTypeInfo :: "gotype \<Rightarrow> error + typeInfo" where
  "getTypeInfo t =
     (case indirectType t of
        TStruct fs \<Rightarrow> normalize ((getRawTypeInfo (indirectType t))\<lparr>tiStruct := t\<rparr>)
      | _ \<Rightarrow> Inl (Panic ''reflect: NumField of non-struct type''))"

section \<open>Unmarshal (hash/unmarshal.go)\<close>

text \<open>A \<open>parse.Node\<close>: a prefix, a value or a group, given by its \<open>Values\<close>.\<close>

datatype node = NPrefix PrefixNode | NValue ValueNode | NGroup "ValueNode list"

definition nodeTypeString :: "node \<Rightarrow> string" where
  "nodeTypeString n =
     (case n of NPrefix p \<Rightarrow> ''prefix'' | NGroup vs \<Rightarrow> ''group'' | NValue v \<Rightarrow> ''value'')"

definition nodeString :: "node \<Rightarrow> string" where
  "nodeString n = (case n of NPrefix p \<Rightarrow> Text p | NValue v \<Rightarrow> Value v | NGroup vs \<Rightarrow> [])"

text \<open>\<open>End()\<close>; on a group without values the source indexes out of range (\<open>None\<close>).\<close>

definition nodeEnd :: "node \<Rightarrow> nat option" where
  "nodeEnd n =
     (case n of
        NPrefix p \<Rightarrow> Some (pEnd p)
      | NValue v \<Rightarrow> Some (vEnd v)
      | NGroup vs \<Rightarrow> (if vs = [] then None else Some (vEnd (last vs))))"

definition fragNode :: "FragmentNode \<Rightarrow> node" where
  "fragNode f = (case f of FValue v \<Rightarrow> NValue v | FGroup vs \<Rightarrow> NGroup vs)"

text \<open>\<open>fieldInfo.String\<close>.\<close>

definition fieldString :: "fieldInfo \<Rightarrow> string" where
  "fieldString f =
     (if Group (Opts f) then ''grouped param''
      else if Param (Opts f) \<noteq> [] then ''param''
      else ''value'')"

definition newUnmarshalError :: "node \<Rightarrow> typeInfo \<Rightarrow> fieldInfo \<Rightarrow> message \<Rightarrow> error" where
  "newUnmarshalError n ti fi msg =
     (case nodeEnd n of
        None \<Rightarrow> Panic ''index out of range''
      | Some e \<Rightarrow>
          UnmarshalType \<lparr>ueValue = nodeTypeString n, ueType = fType fi, ueOffset = e,
                          ueStruct = Some (tiStruct ti), ueField = Name fi, ueMsg = msg\<rparr>)"

definition TrimPrefix :: "string \<Rightarrow> string \<Rightarrow> string" where
  "TrimPrefix s p = (if HasPrefix s p then drop (length p) s else s)"

text \<open>
  The end of \<open>unmarshal\<close>: the switch on the kind of the indirected field type \<open>ft\<close>,
  which stores the text \<open>s\<close> in the value \<open>old\<close> of that type. A byte array keeps the
  elements beyond the text; a byte slice gets the length of the text. \<open>ro\<close> is the flag
  \<open>flagRO\<close> of the value \<open>v\<close>: the methods \<open>SetString\<close>, \<open>SetInt\<close>, \<open>SetUint\<close>, \<open>Set\<close> and
  \<open>SetLen\<close> panic on a read-only value. A byte array calls \<open>SetUint\<close> once for each byte
  it stores; a byte slice calls \<open>Set\<close> or \<open>SetLen\<close> or \<open>SetUint\<close> whatever the text is.
\<close>

definition storeKind ::
  "node \<Rightarrow> typeInfo \<Rightarrow> fieldInfo \<Rightarrow> bool \<Rightarrow> gotype \<Rightarrow> string \<Rightarrow> goval \<Rightarrow> error + goval" where
  "storeKind n ti fi ro ft s old =
     (if oPrefix (Opts fi) \<and> ft \<noteq> TString
      then Inl (newUnmarshalError n ti fi (Msg ''unsupported type''))
      else case ft of
             TArray k el \<Rightarrow>
               if el = TUint 8 then
                 (let b = (case old of VBytes b \<Rightarrow> b | _ \<Rightarrow> replicate k (CHR 0x00));
                      m = min (length s) k
                  in if 0 < m \<and> ro then Inl unexportedPanic
                     else Inr (VBytes (take m s @ drop m b)))
               else Inl (newUnmarshalError n ti fi (Msg ''unsupported type''))
           | TSlice el \<Rightarrow>
               if el = TUint 8 then (if ro then Inl unexportedPanic else Inr (VBytes s))
               else Inl (newUnmarshalError n ti fi (Msg ''unsupported type''))
           | TInt bits \<Rightarrow>
               (case ParseInt s (Base (Opts fi)) bits of
                  Inl e \<Rightarrow> Inl (newUnmarshalError n ti fi (NumErrorText ''ParseInt'' s e))
                | Inr i \<Rightarrow> if ro then Inl unexportedPanic else Inr (VInt i))
           | TUint bits \<Rightarrow>
               (case ParseUint s (Base (Opts fi)) bits of
                  Inl e \<Rightarrow> Inl (newUnmarshalError n ti fi (NumErrorText ''ParseUint'' s e))
                | Inr u \<Rightarrow> if ro then Inl unexportedPanic else Inr (VUint u))
           | TString \<Rightarrow> if ro then Inl unexportedPanic else Inr (VString s)
           | _ \<Rightarrow> Inl (newUnmarshalError n ti fi (Msg ''unsupported type'')))"

text \<open>
  \<open>unmarshalIndirect\<close> on a field of type \<open>t\<close> with value \<open>v\<close>: every nil pointer on the
  way is set to a new zero value, and \<open>f\<close> stores into the value below the pointers.
  \<open>nilPointer\<close> tells whether there is a nil pointer on the way, which
  \<open>unmarshalIndirect\<close> sets with \<open>v.Set\<close>.
\<close>

fun storeIndirect :: "gotype \<Rightarrow> goval \<Rightarrow> (goval \<Rightarrow> error + goval) \<Rightarrow> error + goval" where
  "storeIndirect (TPtr t) v f =
     (case storeIndirect t (case v of VPtr (Some x) \<Rightarrow> x | _ \<Rightarrow> zeroValue t) f of
        Inl m \<Rightarrow> Inl m
      | Inr x \<Rightarrow> Inr (VPtr (Some x)))"
| "storeIndirect t v f = f v"

fun nilPointer :: "gotype \<Rightarrow> goval \<Rightarrow> bool" where
  "nilPointer (TPtr t) v = (case v of VPtr (Some x) \<Rightarrow> nilPointer t x | _ \<Rightarrow> True)"
| "nilPointer t v = False"

text \<open>
  \<open>unmarshal\<close> returns the new value of the field and the node, whose text an inline
  field has cut (the deferred assignment to \<open>val.Value\<close>). The type assertion
  \<open>node.(*parse.ValueNode)\<close> panics on a prefix node. \<open>v\<close> is the value of the field
  \<open>val.FieldByIndex(fi.Index)\<close>, which every call passes through \<open>unmarshalIndirect\<close>;
  that argument is evaluated before the body, and it panics when the field is read-only
  and it has to set a nil pointer.
\<close>

definition unmarshal ::
  "node \<Rightarrow> typeInfo \<Rightarrow> fieldInfo \<Rightarrow> goval \<Rightarrow> error + (goval \<times> node)" where
  "unmarshal n ti fi v =
     (let ro = readOnly (tiType ti) (Index fi) in
      if ro \<and> nilPointer (fType fi) v then Inl unexportedPanic else
      let s0 = nodeString n;
          s1 = (if Param (Opts fi) \<noteq> [] then TrimPrefix s0 (Param (Opts fi) @ ''='') else s0);
          len = Length (Opts fi);
          cut = (if len > 0 then
                   (if Inline (Opts fi) then
                      (if length s1 < len
                       then Inl (newUnmarshalError n ti fi (Msg ''length mismatch''))
                       else case n of
                              NValue val \<Rightarrow>
                                Inr (take len (Value val),
                                     NValue (val\<lparr>Value := drop len (Value val)\<rparr>))
                            | _ \<Rightarrow> Inl (Panic ''interface conversion''))
                    else if length s1 \<noteq> len
                    then Inl (newUnmarshalError n ti fi (Msg ''length mismatch''))
                    else Inr (s1, n))
                 else Inr (s1, n))
      in case cut of
           Inl e \<Rightarrow> Inl e
         | Inr (s, n') \<Rightarrow>
             (case (case oEncoding (Opts fi) of
                      None \<Rightarrow> None
                    | Some enc \<Rightarrow> IndexAnyInvalid enc s) of
                Some i \<Rightarrow> Inl (newUnmarshalError n ti fi (InvalidCharacter (s ! i)))
              | None \<Rightarrow>
                  (case storeIndirect (fType fi) v
                          (storeKind n ti fi ro (indirectType (fType fi)) s) of
                     Inl e \<Rightarrow> Inl e
                   | Inr x \<Rightarrow> Inr (x, n'))))"

text \<open>
  The local variables of \<open>Unmarshal\<close>. \<open>frags\<close> is \<open>tree.Fragments\<close>, whose value nodes
  inline fields cut. The pointer \<open>group\<close> is nil (\<open>None\<close>) or points to the group opened
  at a fragment: to that \<open>GroupNode\<close> of the tree, or to a new \<open>GroupNode\<close> whose only
  value is that \<open>ValueNode\<close> of the tree. It is modelled by the index of the fragment,
  and \<open>groupValues\<close> reads the \<open>Values\<close> of the group through it. \<open>val\<close> is the struct
  that \<open>v\<close> points to.
\<close>

record ustate =
  fragIdx :: nat
  numGroupValues :: int
  group :: "nat option"
  numValues :: int
  numReqValues :: int
  frags :: "FragmentNode list"
  val :: gostruct

definition groupValues :: "FragmentNode \<Rightarrow> ValueNode list" where
  "groupValues f = (case f of FGroup vs \<Rightarrow> vs | FValue v \<Rightarrow> [v])"

definition groupNode :: "ustate \<Rightarrow> nat \<Rightarrow> node" where
  "groupNode st g = NGroup (groupValues (frags st ! g))"

text \<open>Writing a value node back to its place in the tree.\<close>

definition putValue :: "FragmentNode list \<Rightarrow> nat \<Rightarrow> nat \<Rightarrow> node \<Rightarrow> FragmentNode list" where
  "putValue fs g j n =
     (case n of
        NValue v \<Rightarrow>
          (case fs ! g of
             FGroup vs \<Rightarrow> fs[g := FGroup (vs[j := v])]
           | FValue w \<Rightarrow> fs[g := FValue v])
      | _ \<Rightarrow> fs)"

primrec findIndex :: "('a \<Rightarrow> bool) \<Rightarrow> 'a list \<Rightarrow> nat option" where
  "findIndex P [] = None"
| "findIndex P (x # xs) = (if P x then Some 0 else map_option Suc (findIndex P xs))"

definition eofError :: "string \<Rightarrow> typeInfo \<Rightarrow> fieldInfo \<Rightarrow> string \<Rightarrow> error" where
  "eofError hash ti fi msg =
     UnmarshalType \<lparr>ueValue = ''EOF'', ueType = fType fi, ueOffset = length hash,
                     ueStruct = Some (tiStruct ti), ueField = Name fi, ueMsg = Msg msg\<rparr>"

text \<open>The case of a grouped field on a group, or on a single value that a required
  grouped field takes as a group of one.\<close>

definition unmarshalGroup :: "typeInfo \<Rightarrow> fieldInfo \<Rightarrow> ustate \<Rightarrow> error + ustate" where
  "unmarshalGroup ti fi st =
     (let frag = frags st ! fragIdx st;
          st1 = (case frag of
                   FGroup vs \<Rightarrow>
                     if group st = None
                     then st\<lparr>group := Some (fragIdx st), numGroupValues := int (length vs)\<rparr>
                     else st
                 | FValue v \<Rightarrow> st\<lparr>group := Some (fragIdx st), numGroupValues := 1\<rparr>);
          g = the (group st1);
          vs = groupValues (frags st1 ! g)
      in case findIndex (\<lambda>value. HasPrefix (Value value) (Param (Opts fi) @ ''='')) vs of
           Some j \<Rightarrow>
             (case ValueFieldByIndex (tiType ti) (val st1) [] (Index fi) of
                Inl e \<Rightarrow> Inl e
              | Inr old \<Rightarrow>
                  (case unmarshal (NValue (vs ! j)) ti fi old of
                     Inl e \<Rightarrow> Inl e
                   | Inr (x, n') \<Rightarrow>
                       Inr (st1\<lparr>val := (val st1)(Index fi := x),
                                frags := putValue (frags st1) g j n',
                                numGroupValues := numGroupValues st1 - 1\<rparr>)))
         | None \<Rightarrow>
             if \<not> OmitEmpty (Opts fi)
             then Inl (newUnmarshalError (fragNode frag) ti fi
                         (Msg (fieldString fi @ '' not found'')))
             else Inr st1)"

text \<open>The case of a field that is not grouped on a value.\<close>

definition unmarshalValue ::
  "typeInfo \<Rightarrow> fieldInfo \<Rightarrow> ValueNode \<Rightarrow> ustate \<Rightarrow> error + ustate" where
  "unmarshalValue ti fi v st =
     (if (Param (Opts fi) \<noteq> [] \<and> HasPrefix (Value v) (Param (Opts fi))) \<or> Param (Opts fi) = []
      then
        (case ValueFieldByIndex (tiType ti) (val st) [] (Index fi) of
           Inl e \<Rightarrow> Inl e
         | Inr old \<Rightarrow>
             (case unmarshal (NValue v) ti fi old of
                Inl e \<Rightarrow> Inl e
              | Inr (x, n') \<Rightarrow>
                  Inr (st\<lparr>val := (val st)(Index fi := x),
                          frags := putValue (frags st) (fragIdx st) 0 n',
                          numValues := numValues st - 1,
                          numReqValues :=
                            (if \<not> OmitEmpty (Opts fi) then numReqValues st - 1
                             else numReqValues st),
                          fragIdx :=
                            (if \<not> Inline (Opts fi) then fragIdx st + 1 else fragIdx st)\<rparr>)))
      else if OmitEmpty (Opts fi) then Inr st
      else Inl (newUnmarshalError (NValue v) ti fi (Msg (fieldString fi @ '' not found''))))"

text \<open>The body of the loop over \<open>ti.Fields\<close>; \<open>Inr\<close> is the state after the round.\<close>

definition unmarshalField ::
  "string \<Rightarrow> typeInfo \<Rightarrow> fieldInfo \<Rightarrow> ustate \<Rightarrow> error + ustate" where
  "unmarshalField hash ti fi st =
     (case (case group st of
              Some g \<Rightarrow>
                if \<not> Group (Opts fi) then
                  (if numGroupValues st > 0
                   then Inl (newUnmarshalError (groupNode st g) ti fi (Msg ''excessive fragment''))
                   else Inr (st\<lparr>fragIdx := fragIdx st + 1, group := None\<rparr>))
                else Inr st
            | None \<Rightarrow> Inr st) of
        Inl e \<Rightarrow> Inl e
      | Inr st1 \<Rightarrow>
          if fragIdx st1 \<ge> length (frags st1) then
            (if OmitEmpty (Opts fi) then Inr st1
             else Inl (eofError hash ti fi ''unexpected EOF''))
          else if OmitEmpty (Opts fi) \<and> group st1 = None \<and> numValues st1 - numReqValues st1 \<le> 0
          then Inr (st1\<lparr>numValues := numValues st1 - 1\<rparr>)
          else
            (case frags st1 ! fragIdx st1 of
               FGroup vs \<Rightarrow>
                 if Group (Opts fi) then unmarshalGroup ti fi st1
                 else if OmitEmpty (Opts fi) then Inr st1
                 else Inl (newUnmarshalError (NGroup vs) ti fi
                             (Msg (fieldString fi @ '' not found'')))
             | FValue v \<Rightarrow>
                 if Group (Opts fi) \<and> \<not> OmitEmpty (Opts fi) then unmarshalGroup ti fi st1
                 else if \<not> Group (Opts fi) then unmarshalValue ti fi v st1
                 else if OmitEmpty (Opts fi) then Inr st1
                 else Inl (newUnmarshalError (NValue v) ti fi
                             (Msg (fieldString fi @ '' not found'')))))"

fun unmarshalFields ::
  "string \<Rightarrow> typeInfo \<Rightarrow> fieldInfo list \<Rightarrow> ustate \<Rightarrow> error + ustate" where
  "unmarshalFields hash ti [] st = Inr st"
| "unmarshalFields hash ti (fi # fis) st =
     (case unmarshalField hash ti fi st of
        Inl e \<Rightarrow> Inl e
      | Inr st' \<Rightarrow> unmarshalFields hash ti fis st')"

text \<open>The prefix, before the loop.\<close>

definition unmarshalPrefix ::
  "string \<Rightarrow> typeInfo \<Rightarrow> Tree \<Rightarrow> gostruct \<Rightarrow> error + gostruct" where
  "unmarshalPrefix hash ti tr v =
     (case HashPrefix ti of
        None \<Rightarrow> Inr v
      | Some hp \<Rightarrow>
          (case Prefix tr of
             Some p \<Rightarrow>
               (case ValueFieldByIndex (tiType ti) v [] (Index hp) of
                  Inl e \<Rightarrow> Inl e
                | Inr old \<Rightarrow>
                    (case unmarshal (NPrefix p) ti hp old of
                       Inl e \<Rightarrow> Inl e
                     | Inr (x, n') \<Rightarrow> Inr (v(Index hp := x))))
           | None \<Rightarrow>
               if \<not> OmitEmpty (Opts hp) then Inl (eofError hash ti hp ''prefix not found'')
               else Inr v))"

text \<open>
  The checks after the loop. \<open>reflect.TypeOf(v)\<close> is the type that \<open>getTypeInfo\<close> stored
  in \<open>ti.Struct\<close>.
\<close>

definition excessiveError :: "typeInfo \<Rightarrow> node \<Rightarrow> error" where
  "excessiveError ti n =
     (case nodeEnd n of
        None \<Rightarrow> Panic ''index out of range''
      | Some e \<Rightarrow>
          UnmarshalType \<lparr>ueValue = nodeTypeString n, ueType = tiStruct ti, ueOffset = e,
                          ueStruct = None, ueField = [], ueMsg = Msg ''excessive fragment''\<rparr>)"

definition unmarshalFinish :: "typeInfo \<Rightarrow> ustate \<Rightarrow> error + gostruct" where
  "unmarshalFinish ti st =
     (case (case group st of
              Some g \<Rightarrow>
                if numGroupValues st > 0 then Inl (excessiveError ti (groupNode st g))
                else Inr (fragIdx st + 1)
            | None \<Rightarrow> Inr (fragIdx st)) of
        Inl e \<Rightarrow> Inl e
      | Inr i \<Rightarrow>
          if i < length (frags st) then Inl (excessiveError ti (fragNode (frags st ! i)))
          else Inr (val st))"

text \<open>
  \<open>Unmarshal\<close> after \<open>parse.Parse\<close> and \<open>getTypeInfo\<close>: \<open>v\<close> is the struct that the
  argument points to; \<open>initialState\<close> holds the local variables before the loop.
\<close>

definition initialState :: "typeInfo \<Rightarrow> Tree \<Rightarrow> gostruct \<Rightarrow> ustate" where
  "initialState ti tr v =
     \<lparr>fragIdx = 0, numGroupValues = 0, group = None,
      numValues = int (length (Fragments tr)),
      numReqValues = NumReqValues ti,
      frags = Fragments tr, val = v\<rparr>"

definition unmarshalTree ::
  "typeInfo \<Rightarrow> string \<Rightarrow> Tree \<Rightarrow> gostruct \<Rightarrow> error + gostruct" where
  "unmarshalTree ti hash tr v =
     (case unmarshalPrefix hash ti tr v of
        Inl e \<Rightarrow> Inl e
      | Inr v1 \<Rightarrow>
          (case unmarshalFields hash ti (Fields ti) (initialState ti tr v1) of
             Inl e \<Rightarrow> Inl e
           | Inr st \<Rightarrow> unmarshalFinish ti st))"

text \<open>\<open>Unmarshal\<close> with the compiled schema \<open>ti\<close> in place of \<open>getTypeInfo\<close>.\<close>

definition UnmarshalWith :: "typeInfo \<Rightarrow> string \<Rightarrow> gostruct \<Rightarrow> error + gostruct" where
  "UnmarshalWith ti hash v =
     (case Parse hash of
        Inl e \<Rightarrow> Inl (Syntax e)
      | Inr tr \<Rightarrow> unmarshalTree ti hash tr v)"

text \<open>
  \<open>Unmarshal(hash, v)\<close> for a pointer \<open>v\<close> to a struct of type \<open>t\<close> with value \<open>s\<close>
  (\<open>reflect.TypeOf(v)\<close> is \<open>TPtr t\<close>).
\<close>

definition Unmarshal :: "string \<Rightarrow> gotype \<Rightarrow> gostruct \<Rightarrow> error + gostruct" where
  "Unmarshal hash t s =
     (case Parse hash of
        Inl e \<Rightarrow> Inl (Syntax e)
      | Inr tr \<Rightarrow>
          (case getTypeInfo (TPtr t) of
             Inl e \<Rightarrow> Inl e
           | Inr ti \<Rightarrow> unmarshalTree ti hash tr s))"

section \<open>Marshal (hash/marshal.go)\<close>

text \<open>\<open>indirect\<close>: the value below the pointers; \<open>None\<close> is the invalid \<open>reflect.Value\<close>
  that a nil pointer gives.\<close>

fun indirect :: "goval \<Rightarrow> goval option" where
  "indirect (VPtr None) = None"
| "indirect (VPtr (Some x)) = indirect x"
| "indirect v = Some v"

definition isEmpty :: "goval \<Rightarrow> bool" where
  "isEmpty v =
     (case v of
        VString s \<Rightarrow> length s = 0
      | VBytes b \<Rightarrow> length b = 0
      | VSeq n \<Rightarrow> n = 0
      | VBool b \<Rightarrow> \<not> b
      | VInt i \<Rightarrow> i = 0
      | VUint u \<Rightarrow> u = 0
      | VPtr p \<Rightarrow> p = None
      | VStruct \<Rightarrow> False)"

text \<open>
  \<open>marshal\<close>: the text of a value by its kind. \<open>t\<close> is \<open>reflect.TypeOf(v)\<close> of the
  argument of \<open>Marshal\<close>. \<open>strconv.FormatInt\<close> panics on a base outside 2 to 36, and
  \<open>reflect.Copy\<close> panics on a byte array that is read-only (the field of the struct
  \<open>indirectType t\<close> at the index path of \<open>fi\<close>).
\<close>

definition isArray :: "gotype \<Rightarrow> bool" where
  "isArray t = (case t of TArray n el \<Rightarrow> True | _ \<Rightarrow> False)"

definition marshal :: "gotype \<Rightarrow> fieldInfo \<Rightarrow> goval option \<Rightarrow> error + string" where
  "marshal t fi v =
     (case v of
        None \<Rightarrow> Inr []
      | Some x \<Rightarrow>
          if oPrefix (Opts fi) \<and> (case x of VString s \<Rightarrow> False | _ \<Rightarrow> True)
          then Inl (UnsupportedType (fType fi) (Some t) (Name fi))
          else case x of
                 VBytes b \<Rightarrow>
                   if isArray (indirectType (fType fi)) \<and>
                      readOnly (indirectType t) (Index fi)
                   then Inl unexportedPanic
                   else Inr b
               | VInt i \<Rightarrow>
                   if Base (Opts fi) < 2 \<or> Base (Opts fi) > 36
                   then Inl (Panic ''strconv: illegal AppendInt/FormatInt base'')
                   else Inr (FormatInt i (Base (Opts fi)))
               | VUint u \<Rightarrow>
                   if Base (Opts fi) < 2 \<or> Base (Opts fi) > 36
                   then Inl (Panic ''strconv: illegal AppendInt/FormatInt base'')
                   else Inr (FormatUint u (Base (Opts fi)))
               | VString s \<Rightarrow> Inr s
               | _ \<Rightarrow> Inl (UnsupportedType (fType fi) (Some t) (Name fi)))"

definition marshalValue :: "gotype \<Rightarrow> fieldInfo \<Rightarrow> goval option \<Rightarrow> error + string" where
  "marshalValue t fi v =
     (case marshal t fi v of
        Inl e \<Rightarrow> Inl e
      | Inr s \<Rightarrow>
          if Length (Opts fi) > 0 \<and> length s \<noteq> Length (Opts fi)
          then Inl (UnsupportedValue t (Name fi) (Msg ''length mismatch''))
          else case (case oEncoding (Opts fi) of
                       None \<Rightarrow> None
                     | Some enc \<Rightarrow> IndexAnyInvalid enc s) of
                 Some i \<Rightarrow> Inl (UnsupportedValue t (Name fi) (InvalidCharacter (s ! i)))
               | None \<Rightarrow> Inr s)"

text \<open>
  The loop of \<open>Marshal\<close> over \<open>info.Fields\<close>: \<open>buf\<close> is the text written so far, \<open>prevFi\<close>
  the last field written.
\<close>

fun marshalFields ::
  "gotype \<Rightarrow> gostruct \<Rightarrow> fieldInfo list \<Rightarrow> string \<Rightarrow> fieldInfo option \<Rightarrow> error + string" where
  "marshalFields t v [] buf prevFi = Inr buf"
| "marshalFields t v (fi # fis) buf prevFi =
     (case ValueFieldByIndex (indirectType t) v [] (Index fi) of
        Inl e \<Rightarrow> Inl e
      | Inr fv \<Rightarrow>
          if OmitEmpty (Opts fi) \<and> isEmpty fv then marshalFields t v fis buf prevFi
          else case marshalValue t fi (indirect fv) of
                 Inl e \<Rightarrow> Inl e
               | Inr s \<Rightarrow>
                   (let buf1 = (case prevFi of
                                  None \<Rightarrow> buf
                                | Some p \<Rightarrow>
                                    if \<not> Inline (Opts p) then
                                      (if Group (Opts p) \<and> Group (Opts fi) then buf @ '',''
                                       else buf @ ''$'')
                                    else buf);
                        buf2 = (if Param (Opts fi) \<noteq> [] then buf1 @ Param (Opts fi) @ ''=''
                                else buf1)
                    in marshalFields t v fis (buf2 @ s) (Some fi)))"

text \<open>\<open>Marshal\<close> with the compiled schema \<open>info\<close> in place of \<open>getTypeInfo\<close>.\<close>

definition MarshalWith :: "typeInfo \<Rightarrow> gotype \<Rightarrow> gostruct \<Rightarrow> error + string" where
  "MarshalWith info t v =
     (case (case HashPrefix info of
              None \<Rightarrow> Inr []
            | Some hp \<Rightarrow>
                (case ValueFieldByIndex (indirectType t) v [] (Index hp) of
                   Inl e \<Rightarrow> Inl e
                 | Inr fv \<Rightarrow> marshalValue t hp (indirect fv))) of
        Inl e \<Rightarrow> Inl e
      | Inr buf \<Rightarrow> marshalFields t v (Fields info) buf None)"

text \<open>\<open>Marshal(v)\<close> for a struct, or a pointer to a struct, of type \<open>t\<close> with the
  fields \<open>v\<close>.\<close>

definition Marshal :: "gotype \<Rightarrow> gostruct \<Rightarrow> error + string" where
  "Marshal t v =
     (case indirectType t of
        TStruct fs \<Rightarrow>
          (case getTypeInfo t of
             Inl e \<Rightarrow> Inl e
           | Inr info \<Rightarrow> MarshalWith info t v)
      | _ \<Rightarrow> Inl (UnsupportedType t None []))"

section \<open>The structs of the tests (hash/unmarshal_test.go) and their schemas\<close>

text \<open>A struct whose fields are all empty strings.\<close>

definition zeroStrings :: gostruct where
  "zeroStrings = (\<lambda>i. VString [])"

text \<open>An exported field that is not embedded.\<close>

definition exported :: "string \<Rightarrow> gotype \<Rightarrow> string \<Rightarrow> sfield" where
  "exported name t tag = SField name [] False t tag"

text \<open>The options of a string field without a tag, as \<open>getRawTypeInfo\<close> sets them.\<close>

definition stringOpts :: fieldOpts where
  "stringOpts =
     \<lparr>oPrefix = False, OmitEmpty = False, Group = False, Param = [],
      oEncoding = Some HashEncoding, Length = 0, Inline = False, Base = 10\<rparr>"

definition stringField :: "nat \<Rightarrow> string \<Rightarrow> fieldOpts \<Rightarrow> fieldInfo" where
  "stringField i name opts = \<lparr>Index = [i], Name = name, fType = TString, Opts = opts\<rparr>"

definition prefixField :: fieldInfo where
  "prefixField = stringField 0 ''HashPrefix'' (stringOpts\<lparr>oPrefix := True, oEncoding := None\<rparr>)"

text \<open>\<open>struct { HashPrefix string }\<close> ("missing hash prefix").\<close>

definition typePrefixOnly :: gotype where
  "typePrefixOnly = TStruct [exported ''HashPrefix'' TString []]"

definition schemaPrefixOnly :: typeInfo where
  "schemaPrefixOnly =
     \<lparr>tiStruct = TPtr typePrefixOnly, tiType = typePrefixOnly,
      HashPrefix = Some prefixField, Fields = [], NumReqValues = 0\<rparr>"

text \<open>\<open>struct { S string }\<close> ("excessive fragment").\<close>

definition typeOneString :: gotype where
  "typeOneString = TStruct [exported ''S'' TString []]"

definition schemaOneString :: typeInfo where
  "schemaOneString =
     \<lparr>tiStruct = TPtr typeOneString, tiType = typeOneString, HashPrefix = None,
      Fields = [stringField 0 ''S'' stringOpts], NumReqValues = 1\<rparr>"

text \<open>Two grouped fields, \<open>param:x,group\<close> and \<open>param:y,group\<close> ("excessive param in
  group").\<close>

definition typeGroupXY :: gotype where
  "typeGroupXY = TStruct [exported ''S1'' TString ''param:x,group'',
                          exported ''S2'' TString ''param:y,group'']"

definition schemaGroupXY :: typeInfo where
  "schemaGroupXY =
     \<lparr>tiStruct = TPtr typeGroupXY, tiType = typeGroupXY, HashPrefix = None,
      Fields = [stringField 0 ''S1'' (stringOpts\<lparr>Group := True, Param := ''x''\<rparr>),
                stringField 1 ''S2'' (stringOpts\<lparr>Group := True, Param := ''y''\<rparr>)],
      NumReqValues = 0\<rparr>"

text \<open>\<open>struct { S string `hash:"param:x"` }\<close> ("missing param").\<close>

definition typeParamX :: gotype where
  "typeParamX = TStruct [exported ''S'' TString ''param:x'']"

definition paramFieldX :: fieldInfo where
  "paramFieldX = stringField 0 ''S'' (stringOpts\<lparr>Param := ''x''\<rparr>)"

definition schemaParamX :: typeInfo where
  "schemaParamX =
     \<lparr>tiStruct = TPtr typeParamX, tiType = typeParamX, HashPrefix = None,
      Fields = [paramFieldX], NumReqValues = 1\<rparr>"

text \<open>Two fields \<open>param:x\<close> of the same depth ("duplicated param name").\<close>

definition typeDuplicateParam :: gotype where
  "typeDuplicateParam = TStruct [exported ''S1'' TString ''param:x'',
                                 exported ''S2'' TString ''param:x'']"

text \<open>\<open>struct { *inline; S string `hash:"param:s"`; I int }\<close> ("field override"), where
  \<open>inline\<close> is \<open>struct { S string `hash:"param:s"` }\<close>.\<close>

definition typeOverride :: gotype where
  "typeOverride =
     TStruct [SField ''inline'' ''hash'' True (TPtr (TStruct [exported ''S'' TString ''param:s''])) [],
              exported ''S'' TString ''param:s'',
              exported ''I'' (TInt 64) []]"

text \<open>
  \<open>struct { S string `hash:"param:x"`; A; B }\<close> with the embedded structs
  \<open>A = struct { S1 string `hash:"param:x"` }\<close> and
  \<open>B = struct { S2 string `hash:"param:x"` }\<close>.
\<close>

definition typeShadowsTwo :: gotype where
  "typeShadowsTwo =
     TStruct [exported ''S'' TString ''param:x'',
              SField ''A'' [] True (TStruct [exported ''S1'' TString ''param:x'']) [],
              SField ''B'' [] True (TStruct [exported ''S2'' TString ''param:x'']) []]"

text \<open>Two inline fields of length 3.\<close>

definition typeTwoInline :: gotype where
  "typeTwoInline = TStruct [exported ''S1'' TString ''inline,length:3'',
                            exported ''S2'' TString ''inline,length:3'']"

definition schemaTwoInline :: typeInfo where
  "schemaTwoInline =
     \<lparr>tiStruct = TPtr typeTwoInline, tiType = typeTwoInline, HashPrefix = None,
      Fields = [stringField 0 ''S1'' (stringOpts\<lparr>Length := 3, Inline := True\<rparr>),
                stringField 1 ''S2'' (stringOpts\<lparr>Length := 3, Inline := True\<rparr>)],
      NumReqValues = 0\<rparr>"

text \<open>An inline field of length 3, then a field of length 3 that is not inline ("inline
  fields").\<close>

definition typeInlineThenPlain :: gotype where
  "typeInlineThenPlain = TStruct [exported ''S1'' TString ''inline,length:3'',
                                  exported ''S2'' TString ''length:3'']"

definition inlineField :: fieldInfo where
  "inlineField = stringField 0 ''S1'' (stringOpts\<lparr>Length := 3, Inline := True\<rparr>)"

definition lengthField :: fieldInfo where
  "lengthField = stringField 1 ''S2'' (stringOpts\<lparr>Length := 3\<rparr>)"

definition schemaInlineThenPlain :: typeInfo where
  "schemaInlineThenPlain =
     \<lparr>tiStruct = TPtr typeInlineThenPlain, tiType = typeInlineThenPlain, HashPrefix = None,
      Fields = [inlineField, lengthField], NumReqValues = 1\<rparr>"

definition fooBar :: gostruct where
  "fooBar = zeroStrings([0] := VString ''foo'', [1] := VString ''bar'')"

text \<open>The struct of the test "optional fields", and its parse tree of "$test$a$b$c".\<close>

definition typeOptional :: gotype where
  "typeOptional =
     TStruct [exported ''HashPrefix'' TString [],
              exported ''A'' TString [],
              exported ''O1'' TString ''omitempty'',
              exported ''O2'' TString ''omitempty'',
              exported ''B'' TString [],
              exported ''O3'' TString ''omitempty'',
              exported ''C'' TString [],
              exported ''O4'' TString ''omitempty'',
              exported ''O5'' TString ''omitempty'',
              exported ''O6'' TString ''omitempty'']"

definition optionalField :: "nat \<Rightarrow> string \<Rightarrow> fieldInfo" where
  "optionalField i name = stringField i name (stringOpts\<lparr>OmitEmpty := True\<rparr>)"

definition schemaOptional :: typeInfo where
  "schemaOptional =
     \<lparr>tiStruct = TPtr typeOptional, tiType = typeOptional, HashPrefix = Some prefixField,
      Fields = [stringField 1 ''A'' stringOpts, optionalField 2 ''O1'', optionalField 3 ''O2'',
                stringField 4 ''B'' stringOpts, optionalField 5 ''O3'',
                stringField 6 ''C'' stringOpts, optionalField 7 ''O4'', optionalField 8 ''O5'',
                optionalField 9 ''O6''],
      NumReqValues = 3\<rparr>"

definition treeABC :: Tree where
  "treeABC =
     \<lparr>Prefix = Some \<lparr>Text = ''$test$'', pEnd = 6\<rparr>,
      Fragments = map FValue [\<lparr>Value = ''a'', vPos = 6, vEnd = 7\<rparr>,
                              \<lparr>Value = ''b'', vPos = 8, vEnd = 9\<rparr>,
                              \<lparr>Value = ''c'', vPos = 10, vEnd = 11\<rparr>]\<rparr>"

text \<open>A grouped field, a required field, an optional field and a required field; the
  fragments of "x=1$r$a" and the state of \<open>Unmarshal\<close> when it reaches the optional field.\<close>

definition typeGroupOptional :: gotype where
  "typeGroupOptional =
     TStruct [exported ''G'' TString ''param:x,group'',
              exported ''R'' TString [],
              exported ''O'' TString ''omitempty'',
              exported ''A'' TString []]"

definition schemaGroupOptional :: typeInfo where
  "schemaGroupOptional =
     \<lparr>tiStruct = TPtr typeGroupOptional, tiType = typeGroupOptional, HashPrefix = None,
      Fields = [stringField 0 ''G'' (stringOpts\<lparr>Group := True, Param := ''x''\<rparr>),
                stringField 1 ''R'' stringOpts, optionalField 2 ''O'',
                stringField 3 ''A'' stringOpts],
      NumReqValues = 2\<rparr>"

definition fragmentsX1RA :: "FragmentNode list" where
  "fragmentsX1RA =
     [FValue \<lparr>Value = ''x=1'', vPos = 0, vEnd = 3\<rparr>,
      FValue \<lparr>Value = ''r'', vPos = 4, vEnd = 5\<rparr>,
      FValue \<lparr>Value = ''a'', vPos = 6, vEnd = 7\<rparr>]"

definition stateAtO :: ustate where
  "stateAtO =
     \<lparr>fragIdx = 2, numGroupValues = 0, group = None, numValues = 2, numReqValues = 1,
      frags = fragmentsX1RA,
      val = zeroStrings([0] := VString ''1'', [1] := VString ''r'')\<rparr>"

text \<open>The struct that "$test$a$b$c" is unmarshaled to; \<open>struct { HashPrefix string; A string }\<close>;
  and \<open>struct { S1 int }\<close>.\<close>

definition structABC :: gostruct where
  "structABC = zeroStrings([0] := VString ''$test$'', [1] := VString ''a'', [4] := VString ''b'',
                           [6] := VString ''c'')"

definition typePrefixA :: gotype where
  "typePrefixA = TStruct [exported ''HashPrefix'' TString [], exported ''A'' TString []]"


definition typeOneInt :: gotype where
  "typeOneInt = TStruct [exported ''S1'' (TInt 64) []]"













text \<open>
  Two grouped fields with an optional field between them that is not grouped.
\<close>

definition typeGroupGap :: gotype where
  "typeGroupGap =
     TStruct [exported ''G1'' TString ''param:x,group'',
              exported ''O'' TString ''param:o,omitempty'',
              exported ''G2'' TString ''param:y,group'']"

definition schemaGroupGap :: typeInfo where
  "schemaGroupGap =
     \<lparr>tiStruct = TPtr typeGroupGap, tiType = typeGroupGap, HashPrefix = None,
      Fields = [stringField 0 ''G1'' (stringOpts\<lparr>Group := True, Param := ''x''\<rparr>),
                stringField 1 ''O'' (stringOpts\<lparr>OmitEmpty := True, Param := ''o''\<rparr>),
                stringField 2 ''G2'' (stringOpts\<lparr>Group := True, Param := ''y''\<rparr>)],
      NumReqValues = 0\<rparr>"

section \<open>Evaluation\<close>

lemmas lex_eval = Parse_def lex_def lexPrefix_def HasPrefix_def delimChars_def emit_def
  errorf_def lexFragment.simps lexDelim_def lexRest_def ParseToken_def Let_def

lemmas raw_eval = rawField_def initialOpts_def tagParts.simps applyPart_def HasPrefix_def
  hashPrefix_def ParseUint_def digitVal_def Let_def

lemmas schema_eval = getTypeInfo_def getRawTypeInfo_def normalize_def isValid_def field_def
  findSameDepth_def sortFields_def fieldLess_def tagOf_def exported_def stringField_def
  stringOpts_def prefixField_def paramFieldX_def inlineField_def lengthField_def
  optionalField_def

lemmas types_eval = typePrefixOnly_def typeOneString_def typeGroupXY_def typeParamX_def
  typeTwoInline_def typeInlineThenPlain_def typeOptional_def typeGroupOptional_def
  typePrefixA_def typeOneInt_def exported_def readOnly_def isArray_def

lemmas unmarshal_eval = types_eval unmarshalTree_def initialState_def unmarshalPrefix_def
  unmarshalField_def unmarshalGroup_def unmarshalValue_def unmarshalFinish_def unmarshal_def
  newUnmarshalError_def excessiveError_def eofError_def nodeEnd_def nodeString_def
  nodeTypeString_def fragNode_def groupNode_def groupValues_def putValue_def TrimPrefix_def
  HasPrefix_def storeKind_def fieldString_def encoder_def encoderHash_def encoderBase64_def
  stringField_def stringOpts_def prefixField_def paramFieldX_def inlineField_def
  lengthField_def zeroStrings_def Let_def

lemmas marshal_eval = types_eval MarshalWith_def marshalValue_def marshal_def isEmpty_def encoder_def
  encoderHash_def encoderBase64_def stringField_def stringOpts_def prefixField_def
  paramFieldX_def inlineField_def lengthField_def zeroStrings_def Let_def

lemma compile_PrefixOnly: "getTypeInfo (TPtr typePrefixOnly) = Inr schemaPrefixOnly"
  by (simp add: typePrefixOnly_def schemaPrefixOnly_def schema_eval raw_eval)

lemma compile_OneString: "getTypeInfo (TPtr typeOneString) = Inr schemaOneString"
  by (simp add: typeOneString_def schemaOneString_def schema_eval raw_eval)

lemma compile_GroupXY: "getTypeInfo (TPtr typeGroupXY) = Inr schemaGroupXY"
  by (simp add: typeGroupXY_def schemaGroupXY_def schema_eval raw_eval)

lemma Parse_empty: "Parse [] = Inr \<lparr>Prefix = None, Fragments = []\<rparr>"
  by (simp add: lex_eval)

section \<open>Reaching a field\<close>

text \<open>\<open>FieldByIndex\<close> returns the value at the index path, or it panics.\<close>

lemma ValueFieldByIndex_path:
  "ValueFieldByIndex t v p idx = Inr x \<Longrightarrow> x = v (p @ idx)"
proof (induction idx arbitrary: t p)
  case Nil
  then show ?case by simp
next
  case (Cons i idx)
  from Cons.prems obtain t1 where "ValueFieldByIndex t1 v (p @ [i]) idx = Inr x"
    by (auto split: gotype.splits if_splits sum.splits)
  from Cons.IH [OF this] show ?case by simp
qed

lemma ValueFieldByIndex_value:
  "ValueFieldByIndex t v [] idx = Inr x \<Longrightarrow> x = v idx"
  using ValueFieldByIndex_path [of t v "[]" idx x] by simp

text \<open>
  A field can be set when \<open>FieldByIndex\<close> reaches it (no nil pointer to an embedded
  struct on its index path) and it is not read-only. Storing a value that is not a nil
  pointer keeps every field reachable.
\<close>

definition settable :: "typeInfo \<Rightarrow> gostruct \<Rightarrow> fieldInfo \<Rightarrow> bool" where
  "settable ti v f =
     (ValueFieldByIndex (tiType ti) v [] (Index f) = Inr (v (Index f)) \<and>
      \<not> readOnly (tiType ti) (Index f))"

lemma ValueFieldByIndex_update:
  "ValueFieldByIndex t v p idx = Inr x \<Longrightarrow> y \<noteq> VPtr None \<Longrightarrow>
     ValueFieldByIndex t (v(q := y)) p idx = Inr ((v(q := y)) (p @ idx))"
proof (induction idx arbitrary: t p)
  case Nil
  then show ?case by simp
next
  case (Cons i idx)
  show ?case
    using Cons.prems Cons.IH
    by (auto split: gotype.splits if_splits sum.splits)
qed

lemma settable_update:
  "settable ti v f \<Longrightarrow> y \<noteq> VPtr None \<Longrightarrow> settable ti (v(q := y)) f"
  unfolding settable_def
  using ValueFieldByIndex_update [of "tiType ti" v "[]" "Index f" "v (Index f)" y q]
  by simp

section \<open>The missing prefix\<close>

text \<open>
  C7. When the schema has a prefix field that is not \<open>omitempty\<close> and the parse tree of
  the input has no prefix, \<open>Unmarshal\<close> fails with an \<open>UnmarshalTypeError\<close> of value
  "EOF" for the prefix field, with message "prefix not found" and the length of the input
  as offset.
\<close>

theorem missing_prefix_error:
  assumes "HashPrefix ti = Some hp"
    and "\<not> OmitEmpty (Opts hp)"
    and "Parse hash = Inr tr"
    and "Prefix tr = None"
  shows "UnmarshalWith ti hash v =
           Inl (UnmarshalType \<lparr>ueValue = ''EOF'', ueType = fType hp, ueOffset = length hash,
                                ueStruct = Some (tiStruct ti), ueField = Name hp,
                                ueMsg = Msg ''prefix not found''\<rparr>)"
  using assms
  by (simp add: UnmarshalWith_def unmarshalTree_def unmarshalPrefix_def eofError_def)

text \<open>The empty input against \<open>struct { HashPrefix string }\<close>: offset 0.\<close>

theorem missing_prefix_error_empty_input:
  "UnmarshalWith schemaPrefixOnly [] zeroStrings =
     Inl (UnmarshalType \<lparr>ueValue = ''EOF'', ueType = TString, ueOffset = 0,
                          ueStruct = Some (TPtr typePrefixOnly), ueField = ''HashPrefix'',
                          ueMsg = Msg ''prefix not found''\<rparr>)"
proof -
  have hp: "HashPrefix schemaPrefixOnly = Some prefixField"
    by (simp add: schemaPrefixOnly_def)
  have req: "\<not> OmitEmpty (Opts prefixField)"
    by (simp add: prefixField_def stringField_def stringOpts_def)
  have pre: "Prefix \<lparr>Prefix = None, Fragments = []\<rparr> = None"
    by simp
  show ?thesis
    using missing_prefix_error [OF hp req Parse_empty pre, of zeroStrings]
    by (simp add: prefixField_def stringField_def schemaPrefixOnly_def)
qed

section \<open>Excessive fragments\<close>

text \<open>The fragment cursor after the loop, past a group that is still open.\<close>

definition finalCursor :: "ustate \<Rightarrow> nat" where
  "finalCursor st = (if group st = None then fragIdx st else fragIdx st + 1)"

definition excessiveFragment :: "string \<Rightarrow> gotype \<Rightarrow> nat \<Rightarrow> error" where
  "excessiveFragment kind t off =
     UnmarshalType \<lparr>ueValue = kind, ueType = t, ueOffset = off, ueStruct = None,
                     ueField = [], ueMsg = Msg ''excessive fragment''\<rparr>"

text \<open>
  C6. Let the prefix be read and the loop over the fields end in the state \<open>st\<close>. If a
  group is still open with values that no field took, \<open>Unmarshal\<close> fails with
  "excessive fragment" at the end offset of the group. Otherwise, if the cursor (moved
  past a group that is open) is before the end of the fragments, it fails with
  "excessive fragment" at the end offset of the fragment at the cursor. Otherwise it
  returns the struct.
\<close>

theorem excessive_fragment_detection:
  assumes "unmarshalPrefix hash ti tr v = Inr v1"
    and "unmarshalFields hash ti (Fields ti) (initialState ti tr v1) = Inr st"
  shows "(\<forall>g e. group st = Some g \<and> 0 < numGroupValues st \<and>
                nodeEnd (groupNode st g) = Some e \<longrightarrow>
            unmarshalTree ti hash tr v = Inl (excessiveFragment ''group'' (tiStruct ti) e)) \<and>
         (\<forall>e. \<not> (group st \<noteq> None \<and> 0 < numGroupValues st) \<and>
              finalCursor st < length (frags st) \<and>
              nodeEnd (fragNode (frags st ! finalCursor st)) = Some e \<longrightarrow>
            unmarshalTree ti hash tr v =
              Inl (excessiveFragment (nodeTypeString (fragNode (frags st ! finalCursor st)))
                     (tiStruct ti) e)) \<and>
         (\<not> (group st \<noteq> None \<and> 0 < numGroupValues st) \<and>
          length (frags st) \<le> finalCursor st \<longrightarrow>
            unmarshalTree ti hash tr v = Inr (val st))"
proof (intro conjI allI impI)
  fix g e
  assume "group st = Some g \<and> 0 < numGroupValues st \<and> nodeEnd (groupNode st g) = Some e"
  then show "unmarshalTree ti hash tr v = Inl (excessiveFragment ''group'' (tiStruct ti) e)"
    using assms
    by (simp add: unmarshalTree_def unmarshalFinish_def excessiveError_def
        excessiveFragment_def groupNode_def nodeTypeString_def)
next
  fix e
  assume h: "\<not> (group st \<noteq> None \<and> 0 < numGroupValues st) \<and>
             finalCursor st < length (frags st) \<and>
             nodeEnd (fragNode (frags st ! finalCursor st)) = Some e"
  show "unmarshalTree ti hash tr v =
          Inl (excessiveFragment (nodeTypeString (fragNode (frags st ! finalCursor st)))
                 (tiStruct ti) e)"
  proof (cases "group st")
    case None
    with h assms show ?thesis
      by (simp add: unmarshalTree_def unmarshalFinish_def excessiveError_def
          excessiveFragment_def finalCursor_def)
  next
    case (Some g)
    with h assms show ?thesis
      by (simp add: unmarshalTree_def unmarshalFinish_def excessiveError_def
          excessiveFragment_def finalCursor_def)
  qed
next
  assume h: "\<not> (group st \<noteq> None \<and> 0 < numGroupValues st) \<and>
             length (frags st) \<le> finalCursor st"
  show "unmarshalTree ti hash tr v = Inr (val st)"
  proof (cases "group st")
    case None
    with h assms show ?thesis
      by (simp add: unmarshalTree_def unmarshalFinish_def finalCursor_def)
  next
    case (Some g)
    with h assms show ?thesis
      by (simp add: unmarshalTree_def unmarshalFinish_def finalCursor_def)
  qed
qed

lemma Parse_group_xyz:
  "Parse ''x=bar,y=baz,z=foo'' =
     Inr \<lparr>Prefix = None,
          Fragments = [FGroup [\<lparr>Value = ''x=bar'', vPos = 0, vEnd = 5\<rparr>,
                               \<lparr>Value = ''y=baz'', vPos = 6, vEnd = 11\<rparr>,
                               \<lparr>Value = ''z=foo'', vPos = 12, vEnd = 17\<rparr>]]\<rparr>"
  by (simp add: lex_eval)

lemma Parse_foo_bar:
  "Parse ''foo$bar'' =
     Inr \<lparr>Prefix = None,
          Fragments = [FValue \<lparr>Value = ''foo'', vPos = 0, vEnd = 3\<rparr>,
                       FValue \<lparr>Value = ''bar'', vPos = 4, vEnd = 7\<rparr>]\<rparr>"
  by (simp add: lex_eval)

text \<open>
  The input "x=bar,y=baz,z=foo" against the two grouped fields x and y: the error at
  offset 17, the length of the input. And "foo$bar" against one string field: the error
  at the end of the second fragment.
\<close>

theorem excessive_fragment_detection_scenario:
  "UnmarshalWith schemaGroupXY ''x=bar,y=baz,z=foo'' zeroStrings =
     Inl (excessiveFragment ''group'' (TPtr typeGroupXY) (length ''x=bar,y=baz,z=foo'')) \<and>
   UnmarshalWith schemaOneString ''foo$bar'' zeroStrings =
     Inl (excessiveFragment ''value'' (TPtr typeOneString) 7)"
proof -
  let ?tr = "\<lparr>Prefix = None,
              Fragments = [FGroup [\<lparr>Value = ''x=bar'', vPos = 0, vEnd = 5\<rparr>,
                                   \<lparr>Value = ''y=baz'', vPos = 6, vEnd = 11\<rparr>,
                                   \<lparr>Value = ''z=foo'', vPos = 12, vEnd = 17\<rparr>]]\<rparr>"
  let ?st = "\<lparr>fragIdx = 0, numGroupValues = 1, group = Some 0, numValues = 1,
              numReqValues = 0, frags = Fragments ?tr,
              val = zeroStrings([0] := VString ''bar'', [1] := VString ''baz'')\<rparr>"
  have pre: "unmarshalPrefix ''x=bar,y=baz,z=foo'' schemaGroupXY ?tr zeroStrings = Inr zeroStrings"
    by (simp add: unmarshalPrefix_def schemaGroupXY_def)
  have loop: "unmarshalFields ''x=bar,y=baz,z=foo'' schemaGroupXY (Fields schemaGroupXY)
                (initialState schemaGroupXY ?tr zeroStrings) = Inr ?st"
    by (simp add: schemaGroupXY_def unmarshal_eval)
  have g: "group ?st = Some 0 \<and> 0 < numGroupValues ?st \<and> nodeEnd (groupNode ?st 0) = Some 17"
    by (simp add: nodeEnd_def groupNode_def groupValues_def)
  have "unmarshalTree schemaGroupXY ''x=bar,y=baz,z=foo'' ?tr zeroStrings =
          Inl (excessiveFragment ''group'' (tiStruct schemaGroupXY) 17)"
    using excessive_fragment_detection [OF pre loop] g by blast
  moreover have "tiStruct schemaGroupXY = TPtr typeGroupXY"
    by (simp add: schemaGroupXY_def)
  moreover have "length ''x=bar,y=baz,z=foo'' = 17"
    by simp
  ultimately have 1: "UnmarshalWith schemaGroupXY ''x=bar,y=baz,z=foo'' zeroStrings =
             Inl (excessiveFragment ''group'' (TPtr typeGroupXY) (length ''x=bar,y=baz,z=foo''))"
    by (simp only: UnmarshalWith_def Parse_group_xyz sum.case)
  let ?tr2 = "\<lparr>Prefix = None,
               Fragments = [FValue \<lparr>Value = ''foo'', vPos = 0, vEnd = 3\<rparr>,
                            FValue \<lparr>Value = ''bar'', vPos = 4, vEnd = 7\<rparr>]\<rparr>"
  let ?st2 = "\<lparr>fragIdx = 1, numGroupValues = 0, group = None, numValues = 1,
               numReqValues = 0, frags = Fragments ?tr2,
               val = zeroStrings([0] := VString ''foo'')\<rparr>"
  have pre2: "unmarshalPrefix ''foo$bar'' schemaOneString ?tr2 zeroStrings = Inr zeroStrings"
    by (simp add: unmarshalPrefix_def schemaOneString_def)
  have loop2: "unmarshalFields ''foo$bar'' schemaOneString (Fields schemaOneString)
                 (initialState schemaOneString ?tr2 zeroStrings) = Inr ?st2"
    by (simp add: schemaOneString_def unmarshal_eval)
  have c: "\<not> (group ?st2 \<noteq> None \<and> 0 < numGroupValues ?st2) \<and>
           finalCursor ?st2 < length (frags ?st2) \<and>
           nodeEnd (fragNode (frags ?st2 ! finalCursor ?st2)) = Some 7"
    by (simp add: finalCursor_def nodeEnd_def fragNode_def)
  have "unmarshalTree schemaOneString ''foo$bar'' ?tr2 zeroStrings =
          Inl (excessiveFragment (nodeTypeString (fragNode (frags ?st2 ! finalCursor ?st2)))
                 (tiStruct schemaOneString) 7)"
    using excessive_fragment_detection [OF pre2 loop2] c by blast
  moreover have "tiStruct schemaOneString = TPtr typeOneString"
    by (simp add: schemaOneString_def)
  moreover have "nodeTypeString (fragNode (frags ?st2 ! finalCursor ?st2)) = ''value''"
    by (simp add: finalCursor_def fragNode_def nodeTypeString_def)
  ultimately have 2: "UnmarshalWith schemaOneString ''foo$bar'' zeroStrings =
             Inl (excessiveFragment ''value'' (TPtr typeOneString) 7)"
    by (simp only: UnmarshalWith_def Parse_foo_bar sum.case)
  from 1 2 show ?thesis by simp
qed

section \<open>The prefix state of the lexer\<close>

text \<open>
  An input that starts with \<open>$\<close> and has no \<open>$\<close> or \<open>,\<close> after it: the only token is
  the error "missing prefix end" at the end of the input, and \<open>Parse\<close> returns it as a
  \<open>SyntaxError\<close>.
\<close>

theorem lex_missing_prefix_end:
  assumes "IndexAny rest delimChars = None"
  shows "lex (CHR ''$'' # rest) =
           [\<lparr>tType = tokenError, tPos = length (CHR ''$'' # rest),
             tValue = ''missing prefix end''\<rparr>] \<and>
         Parse (CHR ''$'' # rest) =
           Inl \<lparr>seOffset = length (CHR ''$'' # rest), seMsg = ''missing prefix end''\<rparr>"
  using assms
  by (simp add: Parse_def lex_def lexPrefix_def HasPrefix_def errorf_def ParseToken_def)

theorem lex_missing_prefix_end_witness:
  "lex ''$prefix'' = [\<lparr>tType = tokenError, tPos = 7, tValue = ''missing prefix end''\<rparr>] \<and>
   Parse ''$prefix'' = Inl \<lparr>seOffset = 7, seMsg = ''missing prefix end''\<rparr>"
proof -
  have "IndexAny ''prefix'' delimChars = None"
    by (simp add: delimChars_def)
  from lex_missing_prefix_end [OF this] show ?thesis
    by simp
qed

text \<open>
  An input that starts with \<open>$\<close> followed at once by \<open>$\<close> or \<open>,\<close>: the only token is
  the error "missing prefix identifier" at offset 1.
\<close>

theorem lex_missing_prefix_identifier:
  assumes "IndexAny rest delimChars = Some 0"
  shows "lex (CHR ''$'' # rest) =
           [\<lparr>tType = tokenError, tPos = 1, tValue = ''missing prefix identifier''\<rparr>] \<and>
         Parse (CHR ''$'' # rest) =
           Inl \<lparr>seOffset = 1, seMsg = ''missing prefix identifier''\<rparr>"
  using assms
  by (simp add: Parse_def lex_def lexPrefix_def HasPrefix_def errorf_def ParseToken_def)

theorem lex_missing_prefix_identifier_witness:
  "lex ''$$'' = [\<lparr>tType = tokenError, tPos = 1, tValue = ''missing prefix identifier''\<rparr>] \<and>
   Parse ''$$'' = Inl \<lparr>seOffset = 1, seMsg = ''missing prefix identifier''\<rparr>"
proof -
  have "IndexAny ''$'' delimChars = Some 0"
    by (simp add: delimChars_def)
  from lex_missing_prefix_identifier [OF this] show ?thesis
    by simp
qed

text \<open>
  Otherwise the first token is a prefix token that starts at offset 0 and ends with the
  delimiter.
\<close>

theorem lex_prefix_token:
  assumes "IndexAny rest delimChars = Some i" and "0 < i"
  shows "\<exists>ts. lex (CHR ''$'' # rest) =
           \<lparr>tType = tokenPrefix, tPos = 0, tValue = take (i + 2) (CHR ''$'' # rest)\<rparr> # ts"
  using assms
  by (simp add: lex_def lexPrefix_def HasPrefix_def emit_def Let_def
      split: prod.splits option.splits)

theorem lex_prefix_token_witness:
  "\<exists>ts. lex ''$prefix$a'' = \<lparr>tType = tokenPrefix, tPos = 0, tValue = ''$prefix$''\<rparr> # ts"
proof -
  have "IndexAny ''prefix$a'' delimChars = Some 6" and "(0::nat) < 6"
    by (simp_all add: delimChars_def)
  from lex_prefix_token [OF this] show ?thesis
    by simp
qed

text \<open>An error token ends the scan: it is the only token.\<close>

lemma lexDelim_no_error: "t \<in> set (fst (lexDelim l i)) \<Longrightarrow> tType t \<noteq> tokenError"
  by (auto simp: lexDelim_def emit_def Let_def split: if_splits)

lemma lexRest_no_error: "t \<in> set (lexRest l) \<Longrightarrow> tType t \<noteq> tokenError"
  by (auto simp: lexRest_def emit_def Let_def split: if_splits)

lemma lexFragment_no_error: "t \<in> set (lexFragment l) \<Longrightarrow> tType t \<noteq> tokenError"
proof (induction l rule: lexFragment.induct)
  case (1 l)
  show ?case
  proof (cases "IndexAny (drop (pos l) (input l)) delimChars")
    case None
    with "1.prems" show ?thesis
      by (simp add: lexFragment.simps [of l] lexRest_no_error)
  next
    case (Some i)
    with "1.prems"
    have "t \<in> set (fst (lexDelim l i)) \<or> t \<in> set (lexFragment (snd (lexDelim l i)))"
      by (simp add: lexFragment.simps [of l])
    then show ?thesis
      using "1.IH" [OF Some] lexDelim_no_error by blast
  qed
qed

theorem lex_error_is_last:
  assumes "i < length (lex s)" and "tType (lex s ! i) = tokenError"
  shows "lex s = [lex s ! i]"
proof -
  obtain ts r where lp: "lexPrefix \<lparr>input = s, pos = 0, start = 0\<rparr> = (ts, r)"
    by (cases "lexPrefix \<lparr>input = s, pos = 0, start = 0\<rparr>")
  show ?thesis
  proof (cases r)
    case None
    with lp have "lex s = ts" by (simp add: lex_def)
    moreover from lp None have "length ts = 1"
      by (auto simp: lexPrefix_def Let_def emit_def split: if_splits option.splits prod.splits)
    ultimately show ?thesis using assms
      by (cases ts) auto
  next
    case (Some l')
    with lp have eq: "lex s = ts @ lexFragment l'" by (simp add: lex_def)
    from lp Some have "\<forall>t \<in> set ts. tType t \<noteq> tokenError"
      by (auto simp: lexPrefix_def Let_def emit_def split: if_splits option.splits prod.splits)
    with eq lexFragment_no_error have "\<forall>t \<in> set (lex s). tType t \<noteq> tokenError"
      by auto
    with assms show ?thesis
      using nth_mem by blast
  qed
qed

theorem lex_error_is_last_witness:
  "lex ''$$'' = [lex ''$$'' ! 0]"
proof -
  have l: "lex ''$$'' = [\<lparr>tType = tokenError, tPos = 1, tValue = ''missing prefix identifier''\<rparr>]"
    by (simp add: lex_eval)
  have "0 < length (lex ''$$'')" and "tType (lex ''$$'' ! 0) = tokenError"
    by (simp_all add: l)
  from lex_error_is_last [OF this] show ?thesis .
qed

text \<open>
  C8. After the prefix that ends with the delimiter, \<open>lexPrefix\<close> goes on to its second
  test: when the text after the delimiter starts with \<open>_\<close>, it sends a second prefix
  token. On the input "$a$_x" the lexer sends two prefix tokens, and \<open>Parse\<close> keeps the
  second one as the prefix of the tree.
\<close>

theorem lex_two_prefix_tokens:
  "lex ''$a$_x'' =
     [\<lparr>tType = tokenPrefix, tPos = 0, tValue = ''$a$''\<rparr>,
      \<lparr>tType = tokenPrefix, tPos = 3, tValue = ''_''\<rparr>,
      \<lparr>tType = tokenValue, tPos = 4, tValue = ''x''\<rparr>,
      \<lparr>tType = tokenEOF, tPos = 5, tValue = []\<rparr>] \<and>
   Parse ''$a$_x'' =
     Inr \<lparr>Prefix = Some \<lparr>Text = ''_'', pEnd = 1\<rparr>,
          Fragments = [FValue \<lparr>Value = ''x'', vPos = 4, vEnd = 5\<rparr>]\<rparr>"
  by (simp add: lex_eval)

section \<open>Param fields that are not grouped\<close>

lemma compile_ParamX: "getTypeInfo (TPtr typeParamX) = Inr schemaParamX"
  by (simp add: typeParamX_def schemaParamX_def schema_eval raw_eval)

text \<open>
  A value that does not start with the name of the param: the field is skipped when it
  is \<open>omitempty\<close>, and "param not found" is reported otherwise.
\<close>

theorem param_mismatch:
  assumes "Param (Opts fi) \<noteq> []" and "\<not> Group (Opts fi)"
    and "\<not> HasPrefix (Value v) (Param (Opts fi))"
  shows "unmarshalValue ti fi v st =
           (if OmitEmpty (Opts fi) then Inr st
            else Inl (newUnmarshalError (NValue v) ti fi (Msg ''param not found'')))"
  using assms by (simp add: unmarshalValue_def fieldString_def)

theorem param_mismatch_witness:
  "unmarshalValue schemaParamX paramFieldX \<lparr>Value = ''foo'', vPos = 0, vEnd = 3\<rparr> st =
     Inl (UnmarshalType \<lparr>ueValue = ''value'', ueType = TString, ueOffset = 3,
                          ueStruct = Some (TPtr typeParamX), ueField = ''S'',
                          ueMsg = Msg ''param not found''\<rparr>)"
proof -
  have "Param (Opts paramFieldX) \<noteq> []" and "\<not> Group (Opts paramFieldX)"
    and "\<not> HasPrefix (Value \<lparr>Value = ''foo'', vPos = 0, vEnd = 3\<rparr>) (Param (Opts paramFieldX))"
    by (simp_all add: paramFieldX_def stringField_def stringOpts_def HasPrefix_def)
  from param_mismatch [OF this, of schemaParamX st] show ?thesis
    by (simp add: paramFieldX_def stringField_def stringOpts_def newUnmarshalError_def
        nodeEnd_def nodeTypeString_def schemaParamX_def)
qed

text \<open>
  A value that starts with the name of the param and \<open>=\<close>: \<open>unmarshal\<close> stores, or
  fails on, the text after the \<open>=\<close> exactly as a field without param does on that text.
\<close>

lemma newUnmarshalError_Param:
  "newUnmarshalError n ti (fi\<lparr>Opts := (Opts fi)\<lparr>Param := p\<rparr>\<rparr>) = newUnmarshalError n ti fi"
  by (intro ext) (simp add: newUnmarshalError_def split: option.splits)

lemma newUnmarshalError_Value:
  "newUnmarshalError (NValue (v\<lparr>Value := x\<rparr>)) ti fi = newUnmarshalError (NValue v) ti fi"
  by (intro ext) (simp add: newUnmarshalError_def nodeEnd_def nodeTypeString_def
      split: option.splits)

lemma storeKind_Param:
  "storeKind n ti (fi\<lparr>Opts := (Opts fi)\<lparr>Param := p\<rparr>\<rparr>) = storeKind n ti fi"
  by (intro ext)
    (simp add: storeKind_def newUnmarshalError_Param Let_def split: gotype.splits sum.splits)

lemma storeKind_Value:
  "storeKind (NValue (v\<lparr>Value := x\<rparr>)) ti fi = storeKind (NValue v) ti fi"
  by (intro ext)
    (simp add: storeKind_def newUnmarshalError_Value Let_def split: gotype.splits sum.splits)

theorem param_match_decodes_remainder:
  assumes "Param (Opts fi) \<noteq> []" and "\<not> Inline (Opts fi)"
    and "HasPrefix (Value v) (Param (Opts fi) @ ''='')"
  shows "map_sum id fst (unmarshal (NValue v) ti fi old) =
         map_sum id fst
           (unmarshal (NValue (v\<lparr>Value := drop (length (Param (Opts fi)) + 1) (Value v)\<rparr>)) ti
              (fi\<lparr>Opts := (Opts fi)\<lparr>Param := []\<rparr>\<rparr>) old)"
  using assms
  by (simp add: unmarshal_def TrimPrefix_def nodeString_def newUnmarshalError_Param
      newUnmarshalError_Value storeKind_Param storeKind_Value Let_def
      split: sum.splits option.splits prod.splits)

theorem param_match_decodes_remainder_witness:
  "map_sum id fst
     (unmarshal (NValue \<lparr>Value = ''x=foo'', vPos = 0, vEnd = 5\<rparr>) schemaParamX paramFieldX
        (VString [])) = Inr (VString ''foo'')"
proof -
  have "Param (Opts paramFieldX) \<noteq> []" and "\<not> Inline (Opts paramFieldX)"
    and "HasPrefix (Value \<lparr>Value = ''x=foo'', vPos = 0, vEnd = 5\<rparr>)
           (Param (Opts paramFieldX) @ ''='')"
    by (simp_all add: paramFieldX_def stringField_def stringOpts_def HasPrefix_def)
  from param_match_decodes_remainder [OF this, of schemaParamX "VString []"] show ?thesis
    by (simp add: schemaParamX_def unmarshal_eval)
qed

text \<open>
  C5. \<open>Unmarshal\<close> tests the value of a param field that is not grouped against the name
  of the param without the \<open>=\<close>, and \<open>unmarshal\<close> cuts the name only together with the
  \<open>=\<close>. The input "xfoo" against a field \<open>param:x\<close> is accepted, and the whole text is
  stored. The loop over the values of a group tests against the name with the \<open>=\<close>.
\<close>

theorem param_without_equals_accepted:
  "UnmarshalWith schemaParamX ''xfoo'' zeroStrings = Inr (zeroStrings([0] := VString ''xfoo''))"
  by (simp add: UnmarshalWith_def lex_eval schemaParamX_def unmarshal_eval)

section \<open>The length of a byte array field\<close>

text \<open>
  The values of the parts \<open>length:<n>\<close> of a tag that \<open>strconv.ParseUint\<close> accepts, in the
  order of the tag, and what one such value does to the length set so far.
\<close>

definition lengthOfPart :: "string \<Rightarrow> nat list" where
  "lengthOfPart part =
     (if HasPrefix part ''length:''
      then (case ParseUint (drop 7 part) 10 32 of Inr v \<Rightarrow> [v] | Inl e \<Rightarrow> [])
      else [])"

definition lengthTags :: "string \<Rightarrow> nat list" where
  "lengthTags tag = concat (map lengthOfPart (tagParts tag))"

definition lowerLength :: "nat \<Rightarrow> nat \<Rightarrow> nat" where
  "lowerLength l v = (if l = 0 \<or> v < l then v else l)"

lemma HasPrefix_Cons: "HasPrefix s (c # p) \<Longrightarrow> \<exists>r. s = c # r"
  by (cases s) (simp_all add: HasPrefix_def)

lemma length_prefix_excludes:
  assumes "HasPrefix part ''length:''"
  shows "\<not> HasPrefix part ''param:''" and "part \<noteq> ''omitempty''" and "part \<noteq> ''group''"
proof -
  from HasPrefix_Cons [OF assms] obtain r where r: "part = CHR ''l'' # r" ..
  show "\<not> HasPrefix part ''param:''"
    using HasPrefix_Cons [of part "CHR ''p''" "''aram:''"] r by auto
  show "part \<noteq> ''omitempty''" and "part \<noteq> ''group''"
    using r by auto
qed

lemma Length_applyPart:
  "Length (applyPart opts part) = foldl lowerLength (Length opts) (lengthOfPart part)"
proof (cases "HasPrefix part ''length:''")
  case True
  then show ?thesis
    using length_prefix_excludes [OF True]
    by (simp add: applyPart_def lengthOfPart_def lowerLength_def split: sum.splits)
next
  case False
  then show ?thesis
    by (simp add: applyPart_def lengthOfPart_def split: sum.splits)
qed

lemma Length_foldl_applyPart:
  "Length (foldl applyPart opts ps) =
     foldl lowerLength (Length opts) (concat (map lengthOfPart ps))"
  by (induction ps arbitrary: opts) (simp_all add: Length_applyPart)

lemma Length_initialOpts:
  "indirectType t = TArray n (TUint 8) \<Longrightarrow> Length (initialOpts name t) = n"
  by (simp add: initialOpts_def Let_def)

text \<open>
  C10, amended. For a field whose indirected type is \<open>[n]byte\<close>, the length that
  \<open>getRawTypeInfo\<close> stores starts at \<open>n\<close>, and every valid part \<open>length:<v>\<close> of the tag
  replaces it by \<open>v\<close> when it is 0 or \<open>v\<close> is smaller. So it is \<open>n\<close> without such a part;
  with one such part it is \<open>v\<close> when \<open>v < n\<close> or \<open>n = 0\<close>, and \<open>n\<close> otherwise.
\<close>

theorem byte_array_length:
  assumes "indirectType t = TArray n (TUint 8)"
  shows "Length (Opts (rawField i name t tag)) = foldl lowerLength n (lengthTags tag) \<and>
         (lengthTags tag = [] \<longrightarrow> Length (Opts (rawField i name t tag)) = n) \<and>
         (\<forall>v. lengthTags tag = [v] \<longrightarrow>
              Length (Opts (rawField i name t tag)) = (if n = 0 \<or> v < n then v else n))"
proof -
  have "Length (Opts (rawField i name t tag)) = foldl lowerLength n (lengthTags tag)"
    by (simp add: rawField_def Length_foldl_applyPart Length_initialOpts [OF assms]
        lengthTags_def)
  then show ?thesis
    by (simp add: lowerLength_def)
qed

text \<open>A pointer to \<open>[3]byte\<close> with the tag \<open>length:5\<close>: the tag is ignored.\<close>

theorem byte_array_length_witness:
  "lengthTags ''length:5'' = [5] \<and>
   Length (Opts (rawField 0 ''S'' (TPtr (TArray 3 (TUint 8))) ''length:5'')) = 3"
proof -
  have t: "indirectType (TPtr (TArray 3 (TUint 8))) = TArray 3 (TUint 8)"
    by simp
  have l: "lengthTags ''length:5'' = [5]"
    by (simp add: lengthTags_def lengthOfPart_def tagParts.simps HasPrefix_def ParseUint_def
        digitVal_def)
  from byte_array_length [OF t, of 0 "''S''" "''length:5''"] l show ?thesis
    by simp
qed

text \<open>
  C10 as stated fails for \<open>[0]byte\<close>: the tag \<open>length:5\<close> is not smaller than the size 0 of
  the array, and the compiled length is 5.
\<close>

theorem byte_array_length_zero_array:
  "map_sum id (\<lambda>ti. map (\<lambda>f. Length (Opts f)) (Fields ti))
     (getTypeInfo (TStruct [exported ''S'' (TArray 0 (TUint 8)) ''length:5''])) = Inr [5]"
  by (simp add: schema_eval raw_eval)

section \<open>Param names shared by two fields\<close>

text \<open>The depth of a field is the length of its index path; \<open>withParam q\<close> keeps the fields
  whose param name is \<open>q\<close>.\<close>

definition depth :: "fieldInfo \<Rightarrow> nat" where
  "depth f = length (Index f)"

definition withParam :: "string \<Rightarrow> fieldInfo list \<Rightarrow> fieldInfo list" where
  "withParam q fs = filter (\<lambda>f. Param (Opts f) = q) fs"

lemma findSameDepth_None:
  "findSameDepth fi1 acc = None \<longleftrightarrow> (\<forall>x \<in> set acc. depth fi1 \<noteq> depth x)"
  by (auto simp: findSameDepth_def find_None_iff depth_def)

lemma fieldCollect_ok:
  "distinct (map depth (acc @ withParam q fs)) \<Longrightarrow>
     fieldCollect ti q fs acc = Inr (acc @ withParam q fs)"
proof (induction fs arbitrary: acc)
  case Nil
  then show ?case by (simp add: withParam_def)
next
  case (Cons f fs)
  show ?case
  proof (cases "Param (Opts f) = q")
    case False
    with Cons show ?thesis by (simp add: withParam_def)
  next
    case True
    with Cons.prems have d: "distinct (map depth ((acc @ [f]) @ withParam q fs))"
      by (simp add: withParam_def)
    from True Cons.prems have "findSameDepth f acc = None"
      by (auto simp: findSameDepth_None withParam_def)
    with True Cons.IH [OF d] show ?thesis
      by (simp add: withParam_def)
  qed
qed

lemma fieldCollect_skip:
  "\<forall>a \<in> set A. Param (Opts a) \<noteq> q \<Longrightarrow>
     fieldCollect ti q (A @ fs) acc = fieldCollect ti q fs acc"
  by (induction A) simp_all

lemma fieldCollect_cong:
  "tiStruct ti' = tiStruct ti \<Longrightarrow> tiType ti' = tiType ti \<Longrightarrow>
     fieldCollect ti' q fs acc = fieldCollect ti q fs acc"
  by (induction fs arbitrary: acc) (simp_all split: option.splits)

lemma field_cong:
  "tiStruct ti' = tiStruct ti \<Longrightarrow> tiType ti' = tiType ti \<Longrightarrow> Fields ti' = Fields ti \<Longrightarrow>
     field ti' q = field ti q"
  by (simp add: field_def fieldCollect_cong [of ti' ti])

lemma set_insertField: "set (insertField a bs) = insert a (set bs)"
  by (induction bs) auto

lemma set_sortFields: "set (sortFields fs) = set fs"
  by (induction fs) (simp_all add: sortFields_def set_insertField)

lemma fieldCollect_Param:
  "fieldCollect ti q fs acc = Inr r \<Longrightarrow> \<forall>x \<in> set acc. Param (Opts x) = q \<Longrightarrow>
     \<forall>x \<in> set r. Param (Opts x) = q"
proof (induction fs arbitrary: acc)
  case Nil
  then show ?case by simp
next
  case (Cons f fs)
  show ?case
  proof (cases "Param (Opts f) = q")
    case False
    with Cons.prems(1) have "fieldCollect ti q fs acc = Inr r" by simp
    then show ?thesis using Cons.prems(2) by (rule Cons.IH)
  next
    case True
    show ?thesis
    proof (cases "findSameDepth f acc")
      case None
      with True Cons.prems(1) have "fieldCollect ti q fs (acc @ [f]) = Inr r" by simp
      moreover have "\<forall>x \<in> set (acc @ [f]). Param (Opts x) = q"
        using True Cons.prems(2) by simp
      ultimately show ?thesis by (rule Cons.IH)
    next
      case (Some g)
      with True Cons.prems(1) show ?thesis by simp
    qed
  qed
qed

lemma field_Param: "field ti q = Inr r \<Longrightarrow> Param (Opts r) = q"
proof -
  assume a: "field ti q = Inr r"
  then obtain c where c: "fieldCollect ti q (Fields ti) [] = Inr c"
    by (auto simp: field_def split: sum.splits)
  with a have "r \<in> set (sortFields c)"
    by (auto simp: field_def split: list.splits)
  then have "r \<in> set c" by (simp add: set_sortFields)
  with fieldCollect_Param [OF c] show ?thesis by simp
qed

text \<open>
  The fields that the loop of \<open>normalize\<close> appends when no call of \<open>field\<close> fails: a field
  without param name itself, and for the first field of each param name the field that
  \<open>field\<close> returns.
\<close>

fun keepFields :: "typeInfo \<Rightarrow> string set \<Rightarrow> fieldInfo list \<Rightarrow> fieldInfo list" where
  "keepFields ti params [] = []"
| "keepFields ti params (f # fs) =
     (if oPrefix (Opts f) then keepFields ti params fs
      else if Param (Opts f) = [] then f # keepFields ti params fs
      else if Param (Opts f) \<in> params then keepFields ti params fs
      else (case field ti (Param (Opts f)) of Inr r \<Rightarrow> [r] | Inl e \<Rightarrow> []) @
           keepFields ti (insert (Param (Opts f)) params) fs)"

lemma normalizeLoop_ok:
  assumes "\<forall>f \<in> set fs. isValid f \<and> (Param (Opts f) \<noteq> [] \<longrightarrow> (\<exists>r. field ti0 (Param (Opts f)) = Inr r))"
    and "tiStruct ti = tiStruct ti0" and "tiType ti = tiType ti0" and "Fields ti = Fields ti0"
  shows "\<exists>ti'. normalizeLoop ti fs acc params = Inr ti' \<and>
               Fields ti' = acc @ keepFields ti0 params fs"
  using assms
proof (induction fs arbitrary: ti acc params)
  case Nil
  then show ?case by simp
next
  case (Cons f fs)
  have rest: "\<forall>f \<in> set fs. isValid f \<and> (Param (Opts f) \<noteq> [] \<longrightarrow> (\<exists>r. field ti0 (Param (Opts f)) = Inr r))"
    using Cons.prems(1) by simp
  have v: "isValid f" using Cons.prems(1) by simp
  show ?case
  proof (cases "oPrefix (Opts f)")
    case True
    from Cons.IH [OF rest, of "ti\<lparr>HashPrefix := Some f\<rparr>" acc params] Cons.prems
    show ?thesis using True v by simp
  next
    case False
    define ti1 where "ti1 = (if \<not> Group (Opts f) \<and> \<not> OmitEmpty (Opts f) \<and> \<not> Inline (Opts f)
                    then ti\<lparr>NumReqValues := NumReqValues ti + 1\<rparr> else ti)"
    have c: "tiStruct ti1 = tiStruct ti0" "tiType ti1 = tiType ti0" "Fields ti1 = Fields ti0"
      using Cons.prems by (simp_all add: ti1_def)
    have step: "normalizeLoop ti (f # fs) acc params =
        (if Param (Opts f) = [] then normalizeLoop ti1 fs (acc @ [f]) params
            else if Param (Opts f) \<in> params then normalizeLoop ti1 fs acc params
            else case field ti1 (Param (Opts f)) of
                   Inl e \<Rightarrow> Inl e
                 | Inr fi \<Rightarrow> normalizeLoop ti1 fs (acc @ [fi]) (insert (Param (Opts f)) params))"
      using False v by (auto simp: ti1_def Let_def split: sum.splits)
    show ?thesis
    proof (cases "Param (Opts f) = []")
      case True
      with Cons.IH [OF rest c, of "acc @ [f]" params] step False show ?thesis by simp
    next
      case np: False
      show ?thesis
      proof (cases "Param (Opts f) \<in> params")
        case True
        with Cons.IH [OF rest c, of acc params] step False np show ?thesis by simp
      next
        case nin: False
        from Cons.prems(1) np obtain r where r: "field ti0 (Param (Opts f)) = Inr r" by auto
        then have r1: "field ti1 (Param (Opts f)) = Inr r"
          using field_cong [OF c] by simp
        from Cons.IH [OF rest c, of "acc @ [r]" "insert (Param (Opts f)) params"] step False np nin r r1
        show ?thesis by simp
      qed
    qed
  qed
qed

lemma withParam_keepFields:
  assumes "\<forall>f \<in> set fs. isValid f" and "p \<noteq> []"
  shows "withParam p (keepFields ti params fs) =
           (if p \<in> params \<or> withParam p fs = [] then []
            else (case field ti p of Inr r \<Rightarrow> [r] | Inl e \<Rightarrow> []))"
  using assms
proof (induction fs arbitrary: params)
  case Nil
  then show ?case by (simp add: withParam_def)
next
  case (Cons f fs)
  then have v: "isValid f" and rest: "\<forall>f \<in> set fs. isValid f" by simp_all
  note IH = Cons.IH [OF rest Cons.prems(2)]
  have fp: "\<And>q r. field ti q = Inr r \<Longrightarrow> withParam p [r] = (if q = p then [r] else [])"
    using field_Param by (auto simp: withParam_def)
  show ?case
  proof (cases "Param (Opts f) = p")
    case True
    with v Cons.prems(2) have "\<not> oPrefix (Opts f)" by (simp add: isValid_def)
    with True Cons.prems(2) IH [of params] IH [of "insert p params"] show ?thesis
      by (auto simp: withParam_def split: sum.splits dest: field_Param)
  next
    case False
    have "withParam p (case field ti (Param (Opts f)) of Inr r \<Rightarrow> [r] | Inl e \<Rightarrow> []) = []"
      using False by (auto simp: withParam_def split: sum.splits dest: field_Param)
    with False Cons.prems(2) IH [of params] IH [of "insert (Param (Opts f)) params"] show ?thesis
      by (auto simp: withParam_def)
  qed
qed


lemma normalizeLoop_conflict:
  assumes "\<forall>a \<in> set A. isValid a \<and> Param (Opts a) \<noteq> p \<and>
             (Param (Opts a) \<noteq> [] \<longrightarrow> (\<exists>r. field ti0 (Param (Opts a)) = Inr r))"
    and "isValid f" and "Param (Opts f) = p" and "p \<noteq> []" and "p \<notin> params"
    and "field ti0 p = Inl e"
    and "tiStruct ti = tiStruct ti0" and "tiType ti = tiType ti0" and "Fields ti = Fields ti0"
  shows "normalizeLoop ti (A @ f # rest) acc params = Inl e"
  using assms
proof (induction A arbitrary: ti acc params)
  case Nil
  define ti1 where "ti1 = (if \<not> Group (Opts f) \<and> \<not> OmitEmpty (Opts f) \<and> \<not> Inline (Opts f)
                  then ti\<lparr>NumReqValues := NumReqValues ti + 1\<rparr> else ti)"
  have c: "tiStruct ti1 = tiStruct ti0" "tiType ti1 = tiType ti0" "Fields ti1 = Fields ti0"
    using Nil.prems by (simp_all add: ti1_def)
  have "field ti1 p = Inl e"
    using field_cong [OF c] Nil.prems by simp
  moreover have "\<not> oPrefix (Opts f)"
    using Nil.prems by (auto simp: isValid_def)
  ultimately show ?case
    using Nil.prems by (auto simp: ti1_def Let_def)
next
  case (Cons a A)
  have rest: "\<forall>a \<in> set A. isValid a \<and> Param (Opts a) \<noteq> p \<and>
             (Param (Opts a) \<noteq> [] \<longrightarrow> (\<exists>r. field ti0 (Param (Opts a)) = Inr r))"
    using Cons.prems(1) by simp
  have v: "isValid a" and ap: "Param (Opts a) \<noteq> p" using Cons.prems(1) by simp_all
  note IH = Cons.IH [OF rest Cons.prems(2) Cons.prems(3) Cons.prems(4) _ Cons.prems(6)]
  show ?case
  proof (cases "oPrefix (Opts a)")
    case True
    from IH [of params "ti\<lparr>HashPrefix := Some a\<rparr>" acc] Cons.prems
    show ?thesis using True v by simp
  next
    case False
    define ti1 where "ti1 = (if \<not> Group (Opts a) \<and> \<not> OmitEmpty (Opts a) \<and> \<not> Inline (Opts a)
                    then ti\<lparr>NumReqValues := NumReqValues ti + 1\<rparr> else ti)"
    have c: "tiStruct ti1 = tiStruct ti0" "tiType ti1 = tiType ti0" "Fields ti1 = Fields ti0"
      using Cons.prems by (simp_all add: ti1_def)
    have step: "normalizeLoop ti ((a # A) @ f # rest) acc params =
        (if Param (Opts a) = [] then normalizeLoop ti1 (A @ f # rest) (acc @ [a]) params
            else if Param (Opts a) \<in> params then normalizeLoop ti1 (A @ f # rest) acc params
            else case field ti1 (Param (Opts a)) of
                   Inl e \<Rightarrow> Inl e
                 | Inr fi \<Rightarrow> normalizeLoop ti1 (A @ f # rest) (acc @ [fi])
                               (insert (Param (Opts a)) params))"
      using False v by (auto simp: ti1_def Let_def split: sum.splits)
    show ?thesis
    proof (cases "Param (Opts a) = []")
      case True
      with IH [OF Cons.prems(5) c, of "acc @ [a]"] step show ?thesis by simp
    next
      case np: False
      show ?thesis
      proof (cases "Param (Opts a) \<in> params")
        case True
        with IH [OF Cons.prems(5) c, of acc] step np show ?thesis by simp
      next
        case nin: False
        from Cons.prems(1) np obtain r where r: "field ti0 (Param (Opts a)) = Inr r" by auto
        then have r1: "field ti1 (Param (Opts a)) = Inr r"
          using field_cong [OF c] by simp
        have "p \<notin> insert (Param (Opts a)) params"
          using ap Cons.prems(5) by auto
        from IH [OF this c, of "acc @ [r]"] step np nin r1
        show ?thesis by simp
      qed
    qed
  qed
qed

lemma field_ok:
  assumes "distinct (map depth (withParam q (Fields ti)))" and "withParam q (Fields ti) \<noteq> []"
  shows "\<exists>r. field ti q = Inr r"
proof -
  have "fieldCollect ti q (Fields ti) [] = Inr (withParam q (Fields ti))"
    using fieldCollect_ok [of "[]" q "Fields ti" ti] assms(1) by simp
  moreover have "sortFields (withParam q (Fields ti)) \<noteq> []"
    using set_sortFields [of "withParam q (Fields ti)"] assms(2) by (metis set_empty)
  ultimately show ?thesis
    by (auto simp: field_def split: list.splits)
qed

text \<open>
  Two fields of one param name. Let every field have a valid tag, let exactly the two
  fields \<open>f1\<close> and \<open>f2\<close> (in this order) have the param name \<open>p\<close>, and let no two fields
  of any other param name have the same depth. If \<open>f1\<close> and \<open>f2\<close> differ in depth, \<open>normalize\<close> succeeds and
  keeps exactly one field with param name \<open>p\<close>, the shallower one. If they have the same
  depth, \<open>normalize\<close> fails with the \<open>TagParamError\<close> that names \<open>f2\<close> and \<open>f1\<close> and their
  tags.
\<close>

theorem param_conflict_resolution:
  assumes valid: "\<forall>f \<in> set (Fields ti). isValid f"
    and two: "Fields ti = A @ f1 # B @ f2 # C"
    and p1: "Param (Opts f1) = p" and p2: "Param (Opts f2) = p" and p: "p \<noteq> []"
    and notp: "\<forall>f \<in> set (A @ B @ C). Param (Opts f) \<noteq> p"
    and others: "\<forall>q. q \<noteq> [] \<and> q \<noteq> p \<longrightarrow>
                   distinct (map depth (withParam q (Fields ti)))"
  shows "(depth f1 \<noteq> depth f2 \<longrightarrow>
            (\<exists>ti'. normalize ti = Inr ti' \<and>
                   withParam p (Fields ti') = [if depth f1 < depth f2 then f1 else f2])) \<and>
         (depth f1 = depth f2 \<longrightarrow>
            normalize ti =
              Inl (TagParam \<lparr>tpStruct = tiStruct ti, Field1 = Name f2, Field2 = Name f1,
                             Tag1 = tagOf (tiType ti) (Index f2),
                             Tag2 = tagOf (tiType ti) (Index f1)\<rparr>))"
proof (intro conjI impI)
  have wp: "withParam p (Fields ti) = [f1, f2]"
    using two p1 p2 notp by (auto simp: withParam_def)
  have oth: "\<And>f. f \<in> set (Fields ti) \<Longrightarrow> Param (Opts f) \<noteq> [] \<Longrightarrow> Param (Opts f) \<noteq> p \<Longrightarrow>
               \<exists>r. field ti (Param (Opts f)) = Inr r"
  proof -
    fix f assume f: "f \<in> set (Fields ti)" "Param (Opts f) \<noteq> []" "Param (Opts f) \<noteq> p"
    then have "f \<in> set (withParam (Param (Opts f)) (Fields ti))"
      by (simp add: withParam_def)
    then have "withParam (Param (Opts f)) (Fields ti) \<noteq> []" by auto
    with others f show "\<exists>r. field ti (Param (Opts f)) = Inr r"
      by (intro field_ok) auto
  qed
  {
    assume d: "depth f1 \<noteq> depth f2"
    have "fieldCollect ti p (Fields ti) [] = Inr [f1, f2]"
      using fieldCollect_ok [of "[]" p "Fields ti" ti] wp d by simp
    moreover have "sortFields [f1, f2] = (if depth f1 < depth f2 then [f1, f2] else [f2, f1])"
      using d by (auto simp: sortFields_def fieldLess_def depth_def)
    ultimately have fp: "field ti p = Inr (if depth f1 < depth f2 then f1 else f2)"
      by (simp add: field_def)
    have all: "\<forall>f \<in> set (Fields ti). isValid f \<and>
                 (Param (Opts f) \<noteq> [] \<longrightarrow> (\<exists>r. field ti (Param (Opts f)) = Inr r))"
      using valid oth fp by (metis (no_types))
    from normalizeLoop_ok [OF all refl refl refl, of "[]" "{}"]
    obtain ti' where ti': "normalize ti = Inr ti'" "Fields ti' = keepFields ti {} (Fields ti)"
      by (auto simp: normalize_def)
    have "withParam p (keepFields ti {} (Fields ti)) = [if depth f1 < depth f2 then f1 else f2]"
      using withParam_keepFields [OF valid p, of ti "{}"] wp fp by simp
    with ti' show "\<exists>ti'. normalize ti = Inr ti' \<and>
                   withParam p (Fields ti') = [if depth f1 < depth f2 then f1 else f2]"
      by simp
  }
  {
    assume d: "depth f1 = depth f2"
    have "fieldCollect ti p (Fields ti) [] = fieldCollect ti p (f1 # B @ f2 # C) []"
      using fieldCollect_skip [of A p ti "f1 # B @ f2 # C" "[]"] notp two by simp
    also have "\<dots> = fieldCollect ti p (B @ f2 # C) [f1]"
      using p1 by (simp add: findSameDepth_def)
    also have "\<dots> = fieldCollect ti p (f2 # C) [f1]"
      using fieldCollect_skip [of B p ti "f2 # C" "[f1]"] notp by simp
    also have "\<dots> = Inl (TagParam \<lparr>tpStruct = tiStruct ti, Field1 = Name f2, Field2 = Name f1,
                             Tag1 = tagOf (tiType ti) (Index f2),
                             Tag2 = tagOf (tiType ti) (Index f1)\<rparr>)"
      using p2 d by (simp add: findSameDepth_def depth_def)
    finally have fe: "field ti p =
                    Inl (TagParam \<lparr>tpStruct = tiStruct ti, Field1 = Name f2, Field2 = Name f1,
                             Tag1 = tagOf (tiType ti) (Index f2),
                             Tag2 = tagOf (tiType ti) (Index f1)\<rparr>)"
      by (simp add: field_def)
    have A: "\<forall>a \<in> set A. isValid a \<and> Param (Opts a) \<noteq> p \<and>
             (Param (Opts a) \<noteq> [] \<longrightarrow> (\<exists>r. field ti (Param (Opts a)) = Inr r))"
      using valid notp oth two by auto
    have v1: "isValid f1" using valid two by simp
    have "p \<notin> {}" by simp
    from normalizeLoop_conflict [OF A v1 p1 p this fe refl refl refl, of "B @ f2 # C" "[]"]
    show "normalize ti =
              Inl (TagParam \<lparr>tpStruct = tiStruct ti, Field1 = Name f2, Field2 = Name f1,
                             Tag1 = tagOf (tiType ti) (Index f2),
                             Tag2 = tagOf (tiType ti) (Index f1)\<rparr>)"
      by (simp add: normalize_def two)
  }
qed


text \<open>
  The struct of the test "duplicated param name", and the struct of the test "field
  override", which embeds a pointer to \<open>struct { S string `hash:"param:s"` }\<close>.
\<close>

theorem param_conflict_resolution_witness:
  "normalize ((getRawTypeInfo typeDuplicateParam)\<lparr>tiStruct := TPtr typeDuplicateParam\<rparr>) =
     Inl (TagParam \<lparr>tpStruct = TPtr typeDuplicateParam, Field1 = ''S2'', Field2 = ''S1'',
                    Tag1 = ''param:x'', Tag2 = ''param:x''\<rparr>) \<and>
   (\<exists>ti'. normalize ((getRawTypeInfo typeOverride)\<lparr>tiStruct := TPtr typeOverride\<rparr>) = Inr ti' \<and>
          withParam ''s'' (Fields ti') =
            [\<lparr>Index = [1], Name = ''S'', fType = TString, Opts = stringOpts\<lparr>Param := ''s''\<rparr>\<rparr>])"
proof -
  let ?d = "(getRawTypeInfo typeDuplicateParam)\<lparr>tiStruct := TPtr typeDuplicateParam\<rparr>"
  let ?s1 = "\<lparr>Index = [0], Name = ''S1'', fType = TString, Opts = stringOpts\<lparr>Param := ''x''\<rparr>\<rparr>"
  let ?s2 = "\<lparr>Index = [1], Name = ''S2'', fType = TString, Opts = stringOpts\<lparr>Param := ''x''\<rparr>\<rparr>"
  have fd: "Fields ?d = [] @ ?s1 # [] @ ?s2 # []"
    by (simp add: typeDuplicateParam_def getRawTypeInfo_def exported_def stringOpts_def raw_eval)
  have vd: "\<forall>f \<in> set (Fields ?d). isValid f"
    unfolding fd by (simp add: isValid_def stringOpts_def)
  have od: "\<forall>q. q \<noteq> [] \<and> q \<noteq> ''x'' \<longrightarrow> distinct (map depth (withParam q (Fields ?d)))"
    unfolding fd by (auto simp: withParam_def stringOpts_def)
  have 1: "normalize ?d =
     Inl (TagParam \<lparr>tpStruct = TPtr typeDuplicateParam, Field1 = ''S2'', Field2 = ''S1'',
                    Tag1 = ''param:x'', Tag2 = ''param:x''\<rparr>)"
    using param_conflict_resolution [OF vd fd, of "''x''"] od
    by (simp add: stringOpts_def depth_def getRawTypeInfo_def tagOf_def typeDuplicateParam_def
        exported_def)
  let ?o = "(getRawTypeInfo typeOverride)\<lparr>tiStruct := TPtr typeOverride\<rparr>"
  let ?i = "\<lparr>Index = [0, 0], Name = ''S'', fType = TString, Opts = stringOpts\<lparr>Param := ''s''\<rparr>\<rparr>"
  let ?s = "\<lparr>Index = [1], Name = ''S'', fType = TString, Opts = stringOpts\<lparr>Param := ''s''\<rparr>\<rparr>"
  let ?n = "\<lparr>Index = [2], Name = ''I'', fType = TInt 64, Opts = stringOpts\<rparr>"
  have fo: "Fields ?o = [] @ ?i # [] @ ?s # [?n]"
    by (simp add: typeOverride_def getRawTypeInfo_def exported_def stringOpts_def raw_eval)
  have vo: "\<forall>f \<in> set (Fields ?o). isValid f"
    unfolding fo by (simp add: isValid_def stringOpts_def)
  have oo: "\<forall>q. q \<noteq> [] \<and> q \<noteq> ''s'' \<longrightarrow> distinct (map depth (withParam q (Fields ?o)))"
    unfolding fo by (auto simp: withParam_def stringOpts_def)
  have 2: "\<exists>ti'. normalize ?o = Inr ti' \<and> withParam ''s'' (Fields ti') = [?s]"
    using param_conflict_resolution [OF vo fo, of "''s''"] oo
    by (simp add: stringOpts_def depth_def)
  from 1 2 show ?thesis by simp
qed

text \<open>
  C9. \<open>field\<close> compares every field of the param name with the fields of that name
  collected before it, and returns the \<open>TagParamError\<close> at the first pair of equal depth,
  before it sorts the fields by depth. A field \<open>S\<close> of the struct with \<open>param:x\<close> and two
  embedded structs that each have a field with \<open>param:x\<close>: the field \<open>S\<close> is shallower
  than both and shadows them in Go, but the schema is not compiled, for the two deeper
  fields have the same depth.
\<close>

theorem shallower_field_does_not_shadow_conflict:
  "getTypeInfo (TPtr typeShadowsTwo) =
     Inl (TagParam \<lparr>tpStruct = TPtr typeShadowsTwo, Field1 = ''S2'', Field2 = ''S1'',
                    Tag1 = ''param:x'', Tag2 = ''param:x''\<rparr>) \<and>
   map (\<lambda>f. (Name f, depth f, Param (Opts f))) (Fields (getRawTypeInfo typeShadowsTwo)) =
     [(''S'', 1, ''x''), (''S1'', 2, ''x''), (''S2'', 2, ''x'')]"
  by (simp add: typeShadowsTwo_def schema_eval raw_eval depth_def)

section \<open>Inline fields\<close>

lemma compile_TwoInline: "getTypeInfo (TPtr typeTwoInline) = Inr schemaTwoInline"
  by (simp add: typeTwoInline_def schemaTwoInline_def schema_eval raw_eval)

lemma compile_InlineThenPlain:
  "getTypeInfo (TPtr typeInlineThenPlain) = Inr schemaInlineThenPlain"
  by (simp add: typeInlineThenPlain_def schemaInlineThenPlain_def schema_eval raw_eval)

lemma Parse_foobar:
  "Parse ''foobar'' =
     Inr \<lparr>Prefix = None, Fragments = [FValue \<lparr>Value = ''foobar'', vPos = 0, vEnd = 6\<rparr>]\<rparr>"
  by (simp add: lex_eval)

text \<open>
  C3 as stated fails: when both fields are inline, no field moves the cursor past the
  fragment, and \<open>Unmarshal\<close> reports "excessive fragment" at offset 6.
\<close>

theorem two_inline_fields_excessive:
  "Unmarshal ''foobar'' typeTwoInline zeroStrings =
     Inl (excessiveFragment ''value'' (TPtr typeTwoInline) 6)"
  unfolding Unmarshal_def Parse_foobar compile_TwoInline
  by (simp add: schemaTwoInline_def unmarshal_eval excessiveFragment_def)

lemma inline_step:
  assumes "group st = None" and "fragIdx st < length (frags st)"
    and "frags st ! fragIdx st = FValue v"
    and "Inline (Opts fi)" and "\<not> Group (Opts fi)" and "\<not> OmitEmpty (Opts fi)"
    and "Length (Opts fi) = n" and "0 < n"
    and "unmarshalField hash ti fi st = Inr st'"
  shows "fragIdx st' = fragIdx st \<and>
         frags st' = (frags st)[fragIdx st := FValue (v\<lparr>Value := drop n (Value v)\<rparr>)] \<and>
         (\<exists>x. storeIndirect (fType fi) (val st (Index fi))
                (storeKind (NValue v) ti fi (readOnly (tiType ti) (Index fi))
                   (indirectType (fType fi)) (take n (Value v))) = Inr x \<and>
              val st' = (val st)(Index fi := x))"
  using assms
  by (auto simp: unmarshalField_def unmarshalValue_def unmarshal_def putValue_def Let_def
      dest!: ValueFieldByIndex_value
      split: if_splits sum.splits option.splits prod.splits)

text \<open>
  C3, amended. With an inline field of length 3 followed by a field of length 3 that is
  not inline, "foobar" is unmarshaled to "foo" and "bar". A required inline field of
  length \<open>n\<close> that succeeds on the value at the cursor stores the first \<open>n\<close> characters of
  its text, leaves the rest of the text in the fragment and does not move the cursor.
\<close>

theorem inline_fields:
  "Unmarshal ''foobar'' typeInlineThenPlain zeroStrings = Inr fooBar \<and>
   (group st = None \<and> fragIdx st < length (frags st) \<and> frags st ! fragIdx st = FValue v \<and>
    Inline (Opts fi) \<and> \<not> Group (Opts fi) \<and> \<not> OmitEmpty (Opts fi) \<and>
    Length (Opts fi) = n \<and> 0 < n \<and> unmarshalField hash ti fi st = Inr st' \<longrightarrow>
      fragIdx st' = fragIdx st \<and>
      frags st' = (frags st)[fragIdx st := FValue (v\<lparr>Value := drop n (Value v)\<rparr>)] \<and>
      (\<exists>x. storeIndirect (fType fi) (val st (Index fi))
             (storeKind (NValue v) ti fi (readOnly (tiType ti) (Index fi))
                   (indirectType (fType fi)) (take n (Value v))) = Inr x \<and>
           val st' = (val st)(Index fi := x)))"
proof (intro conjI impI)
  show "Unmarshal ''foobar'' typeInlineThenPlain zeroStrings = Inr fooBar"
    unfolding Unmarshal_def Parse_foobar compile_InlineThenPlain
    by (simp add: schemaInlineThenPlain_def unmarshal_eval fooBar_def)
next
  assume "group st = None \<and> fragIdx st < length (frags st) \<and> frags st ! fragIdx st = FValue v \<and>
    Inline (Opts fi) \<and> \<not> Group (Opts fi) \<and> \<not> OmitEmpty (Opts fi) \<and>
    Length (Opts fi) = n \<and> 0 < n \<and> unmarshalField hash ti fi st = Inr st'"
  then have "fragIdx st' = fragIdx st \<and>
      frags st' = (frags st)[fragIdx st := FValue (v\<lparr>Value := drop n (Value v)\<rparr>)] \<and>
      (\<exists>x. storeIndirect (fType fi) (val st (Index fi))
             (storeKind (NValue v) ti fi (readOnly (tiType ti) (Index fi))
                   (indirectType (fType fi)) (take n (Value v))) = Inr x \<and>
           val st' = (val st)(Index fi := x))"
    by (intro inline_step [of st v fi n hash ti st']) simp_all
  then show "fragIdx st' = fragIdx st"
    and "frags st' = (frags st)[fragIdx st := FValue (v\<lparr>Value := drop n (Value v)\<rparr>)]"
    and "\<exists>x. storeIndirect (fType fi) (val st (Index fi))
             (storeKind (NValue v) ti fi (readOnly (tiType ti) (Index fi))
                   (indirectType (fType fi)) (take n (Value v))) = Inr x \<and>
           val st' = (val st)(Index fi := x)"
    by simp_all
qed

text \<open>The first field of the scenario: "foo" is stored, "bar" stays in the fragment, the
  cursor stays at 0.\<close>

theorem inline_fields_witness:
  "\<exists>st'. unmarshalField ''foobar'' schemaInlineThenPlain inlineField
           (initialState schemaInlineThenPlain
              \<lparr>Prefix = None,
               Fragments = [FValue \<lparr>Value = ''foobar'', vPos = 0, vEnd = 6\<rparr>]\<rparr> zeroStrings) =
         Inr st' \<and>
         fragIdx st' = 0 \<and>
         frags st' = [FValue \<lparr>Value = ''bar'', vPos = 0, vEnd = 6\<rparr>] \<and>
         val st' [0] = VString ''foo''"
proof -
  let ?v = "\<lparr>Value = ''foobar'', vPos = 0, vEnd = 6\<rparr>"
  let ?st = "initialState schemaInlineThenPlain \<lparr>Prefix = None, Fragments = [FValue ?v]\<rparr>
               zeroStrings"
  obtain st' where s: "unmarshalField ''foobar'' schemaInlineThenPlain inlineField ?st = Inr st'"
    by (simp add: unmarshal_eval schemaInlineThenPlain_def)
  have h: "group ?st = None \<and> fragIdx ?st < length (frags ?st) \<and>
           frags ?st ! fragIdx ?st = FValue ?v \<and>
           Inline (Opts inlineField) \<and> \<not> Group (Opts inlineField) \<and>
           \<not> OmitEmpty (Opts inlineField) \<and> Length (Opts inlineField) = 3 \<and> (0::nat) < 3"
    by (simp add: initialState_def inlineField_def stringField_def stringOpts_def)
  from inline_fields [of ?st ?v inlineField 3 "''foobar''" schemaInlineThenPlain st'] h s
  have "fragIdx st' = fragIdx ?st \<and>
        frags st' = (frags ?st)[fragIdx ?st := FValue (?v\<lparr>Value := drop 3 (Value ?v)\<rparr>)] \<and>
        (\<exists>x. storeIndirect (fType inlineField) (val ?st (Index inlineField))
               (storeKind (NValue ?v) schemaInlineThenPlain inlineField
                  (readOnly (tiType schemaInlineThenPlain) (Index inlineField))
                  (indirectType (fType inlineField)) (take 3 (Value ?v))) =
             Inr x \<and>
             val st' = (val ?st)(Index inlineField := x))"
    by blast
  then have "fragIdx st' = 0 \<and> frags st' = [FValue \<lparr>Value = ''bar'', vPos = 0, vEnd = 6\<rparr>] \<and>
             val st' [0] = VString ''foo''"
    by (auto simp: initialState_def inlineField_def stringField_def stringOpts_def storeKind_def
        schemaInlineThenPlain_def types_eval)
  with s show ?thesis by blast
qed

section \<open>The separators of Marshal\<close>

text \<open>
  The separator between two consecutive written fields as C4 states it, and as \<open>Marshal\<close>
  writes it: nothing after an inline field, whatever follows. \<open>render\<close> is the text of a
  field with the name of its param, \<open>joinWith\<close> joins the texts of the written fields,
  and \<open>emitted\<close> gives the written fields with their texts, or the first error.
\<close>

definition separatorClaimed :: "fieldInfo \<Rightarrow> fieldInfo \<Rightarrow> string" where
  "separatorClaimed p f =
     (if Inline (Opts p) \<and> Inline (Opts f) then []
      else if Group (Opts p) \<and> Group (Opts f) then '',''
      else ''$'')"

definition separator :: "fieldInfo \<Rightarrow> fieldInfo \<Rightarrow> string" where
  "separator p f =
     (if Inline (Opts p) then []
      else if Group (Opts p) \<and> Group (Opts f) then '',''
      else ''$'')"

definition render :: "fieldInfo \<Rightarrow> string \<Rightarrow> string" where
  "render f s = (if Param (Opts f) \<noteq> [] then Param (Opts f) @ ''='' @ s else s)"

fun joinWith :: "(fieldInfo \<Rightarrow> fieldInfo \<Rightarrow> string) \<Rightarrow> (fieldInfo \<times> string) list \<Rightarrow> string" where
  "joinWith sep [] = []"
| "joinWith sep [(f, s)] = render f s"
| "joinWith sep ((f, s) # (g, t) # rest) = render f s @ sep f g @ joinWith sep ((g, t) # rest)"

fun emitted :: "gotype \<Rightarrow> gostruct \<Rightarrow> fieldInfo list \<Rightarrow> error + (fieldInfo \<times> string) list" where
  "emitted t v [] = Inr []"
| "emitted t v (fi # fis) =
     (case ValueFieldByIndex (indirectType t) v [] (Index fi) of
        Inl e \<Rightarrow> Inl e
      | Inr fv \<Rightarrow>
          if OmitEmpty (Opts fi) \<and> isEmpty fv then emitted t v fis
          else case marshalValue t fi (indirect fv) of
                 Inl e \<Rightarrow> Inl e
               | Inr s \<Rightarrow>
                   (case emitted t v fis of
                      Inl e \<Rightarrow> Inl e
                    | Inr xs \<Rightarrow> Inr ((fi, s) # xs)))"

definition sepBefore :: "fieldInfo option \<Rightarrow> fieldInfo \<Rightarrow> string" where
  "sepBefore prev f = (case prev of None \<Rightarrow> [] | Some p \<Rightarrow> separator p f)"

definition lead :: "fieldInfo option \<Rightarrow> (fieldInfo \<times> string) list \<Rightarrow> string" where
  "lead prev xs = (case xs of [] \<Rightarrow> [] | (f, s) # rest \<Rightarrow> sepBefore prev f)"

lemma joinWith_Cons:
  "joinWith separator ((f, s) # xs) = render f s @ lead (Some f) xs @ joinWith separator xs"
  by (cases xs) (auto simp: lead_def sepBefore_def)

lemma marshalFields_panic:
  "ValueFieldByIndex (indirectType t) v [] (Index fi) = Inl e \<Longrightarrow>
     marshalFields t v (fi # fis) buf prev = Inl e"
  by simp

lemma marshalFields_skip:
  "ValueFieldByIndex (indirectType t) v [] (Index fi) = Inr fv \<Longrightarrow>
   OmitEmpty (Opts fi) \<and> isEmpty fv \<Longrightarrow>
     marshalFields t v (fi # fis) buf prev = marshalFields t v fis buf prev"
  by simp

lemma marshalFields_error:
  "ValueFieldByIndex (indirectType t) v [] (Index fi) = Inr fv \<Longrightarrow>
   \<not> (OmitEmpty (Opts fi) \<and> isEmpty fv) \<Longrightarrow>
   marshalValue t fi (indirect fv) = Inl e \<Longrightarrow>
     marshalFields t v (fi # fis) buf prev = Inl e"
  by (simp only: marshalFields.simps Let_def if_False sum.case)

lemma marshalFields_emit:
  assumes "ValueFieldByIndex (indirectType t) v [] (Index fi) = Inr fv"
    and "\<not> (OmitEmpty (Opts fi) \<and> isEmpty fv)"
    and "marshalValue t fi (indirect fv) = Inr s"
  shows "marshalFields t v (fi # fis) buf prev =
           marshalFields t v fis (buf @ sepBefore prev fi @ render fi s) (Some fi)"
proof -
  let ?buf1 = "(case prev of
                  None \<Rightarrow> buf
                | Some p \<Rightarrow>
                    if \<not> Inline (Opts p) then
                      (if Group (Opts p) \<and> Group (Opts fi) then buf @ '',''
                       else buf @ ''$'')
                    else buf)"
  have b1: "?buf1 = buf @ sepBefore prev fi"
    by (simp add: sepBefore_def separator_def split: option.splits)
  have b2: "(if Param (Opts fi) \<noteq> [] then ?buf1 @ Param (Opts fi) @ ''='' else ?buf1) @ s =
            buf @ sepBefore prev fi @ render fi s"
    unfolding b1 by (simp add: render_def)
  have "marshalFields t v (fi # fis) buf prev =
          marshalFields t v fis
            ((if Param (Opts fi) \<noteq> [] then ?buf1 @ Param (Opts fi) @ ''='' else ?buf1) @ s)
            (Some fi)"
    by (simp only: marshalFields.simps Let_def assms if_False sum.case)
  then show ?thesis
    by (simp only: b2)
qed

lemma lead_Cons: "lead prev ((fi, s) # xs) = sepBefore prev fi"
  by (simp add: lead_def)

lemma marshalFields_join:
  "marshalFields t v fs buf prev =
     (case emitted t v fs of
        Inl e \<Rightarrow> Inl e
      | Inr xs \<Rightarrow> Inr (buf @ lead prev xs @ joinWith separator xs))"
proof (induction fs arbitrary: buf prev)
  case Nil
  then show ?case by (simp add: lead_def)
next
  case (Cons fi fis)
  show ?case
  proof (cases "ValueFieldByIndex (indirectType t) v [] (Index fi)")
    case (Inl e)
    then have "emitted t v (fi # fis) = Inl e" by simp
    then show ?thesis
      by (simp only: marshalFields_panic [OF Inl] sum.case)
  next
    case look: (Inr fv)
    show ?thesis
    proof (cases "OmitEmpty (Opts fi) \<and> isEmpty fv")
      case True
      with look have "emitted t v (fi # fis) = emitted t v fis" by simp
      then show ?thesis
        by (simp only: marshalFields_skip [OF look True] Cons.IH)
    next
      case False
      show ?thesis
      proof (cases "marshalValue t fi (indirect fv)")
        case (Inl e)
        from look False Inl have "emitted t v (fi # fis) = Inl e" by auto
        then show ?thesis
          by (simp only: marshalFields_error [OF look False Inl] sum.case)
      next
        case (Inr s)
        show ?thesis
        proof (cases "emitted t v fis")
          case (Inl e)
          with look False Inr have "emitted t v (fi # fis) = Inl e" by auto
          then show ?thesis
            by (simp only: marshalFields_emit [OF look False Inr] Cons.IH Inl sum.case)
        next
          case r: (Inr xs)
          with look False Inr have "emitted t v (fi # fis) = Inr ((fi, s) # xs)" by auto
          then show ?thesis
            by (simp only: marshalFields_emit [OF look False Inr] Cons.IH r sum.case
                joinWith_Cons lead_Cons append_assoc)
        qed
      qed
    qed
  qed
qed

text \<open>
  C4, amended. \<open>Marshal\<close> writes the text of the prefix, then the texts of the fields that
  are not skipped, each with \<open><paramName>=\<close> before it when it has a param name; between
  two consecutive written fields it writes nothing when the first is inline, \<open>,\<close> when
  both are grouped, and \<open>$\<close> otherwise. The first error of a field is returned.
\<close>

theorem marshal_separators:
  "MarshalWith info t v =
     (case (case HashPrefix info of
              None \<Rightarrow> Inr []
            | Some hp \<Rightarrow>
                (case ValueFieldByIndex (indirectType t) v [] (Index hp) of
                   Inl e \<Rightarrow> Inl e
                 | Inr fv \<Rightarrow> marshalValue t hp (indirect fv))) of
        Inl e \<Rightarrow> Inl e
      | Inr pre \<Rightarrow>
          (case emitted t v (Fields info) of
             Inl e \<Rightarrow> Inl e
           | Inr xs \<Rightarrow> Inr (pre @ joinWith separator xs)))"
  by (simp add: MarshalWith_def marshalFields_join lead_def sepBefore_def
      split: sum.splits list.splits)


text \<open>
  C4 as stated fails for an inline field followed by a field that is not inline: the
  claim joins them with \<open>$\<close>, \<open>Marshal\<close> writes them without separator.
\<close>

theorem inline_then_plain_no_separator:
  "Marshal typeInlineThenPlain fooBar = Inr ''foobar'' \<and>
   emitted typeInlineThenPlain fooBar (Fields schemaInlineThenPlain) =
     Inr [(inlineField, ''foo''), (lengthField, ''bar'')] \<and>
   joinWith separatorClaimed [(inlineField, ''foo''), (lengthField, ''bar'')] = ''foo$bar''"
proof -
  have c: "getTypeInfo typeInlineThenPlain = Inr (schemaInlineThenPlain\<lparr>tiStruct := typeInlineThenPlain\<rparr>)"
    by (simp add: typeInlineThenPlain_def schemaInlineThenPlain_def schema_eval raw_eval)
  have 1: "Marshal typeInlineThenPlain fooBar = Inr ''foobar''"
    unfolding Marshal_def c
    by (simp add: typeInlineThenPlain_def schemaInlineThenPlain_def marshal_eval fooBar_def)
  have 2: "emitted typeInlineThenPlain fooBar (Fields schemaInlineThenPlain) =
     Inr [(inlineField, ''foo''), (lengthField, ''bar'')]"
    by (simp add: schemaInlineThenPlain_def marshal_eval fooBar_def)
  have 3: "joinWith separatorClaimed [(inlineField, ''foo''), (lengthField, ''bar'')] = ''foo$bar''"
    by (simp add: separatorClaimed_def render_def inlineField_def lengthField_def
        stringField_def stringOpts_def)
  from 1 2 3 show ?thesis by simp
qed

section \<open>Optional fields\<close>

lemma compile_Optional: "getTypeInfo (TPtr typeOptional) = Inr schemaOptional"
  by (simp add: typeOptional_def schemaOptional_def optionalField_def schema_eval raw_eval)

lemma Parse_test_abc: "Parse ''$test$a$b$c'' = Inr treeABC"
  by (simp add: lex_eval treeABC_def)

lemma compile_GroupOptional: "getTypeInfo (TPtr typeGroupOptional) = Inr schemaGroupOptional"
  by (simp add: typeGroupOptional_def schemaGroupOptional_def optionalField_def schema_eval
      raw_eval)

lemma Parse_x1_r_a: "Parse ''x=1$r$a'' = Inr \<lparr>Prefix = None, Fragments = fragmentsX1RA\<rparr>"
  by (simp add: lex_eval fragmentsX1RA_def)

text \<open>
  A positional string field: not grouped, not inline, without param name, of type string.
  It accepts a text that has its length, if it has one, and stays inside its alphabet, if
  it has one. A field is required when it is neither \<open>omitempty\<close> nor grouped nor inline
  (the fields that \<open>NumReqValues\<close> counts), and optional when it is \<open>omitempty\<close>.
\<close>

definition positional :: "fieldInfo \<Rightarrow> bool" where
  "positional f =
     (\<not> Group (Opts f) \<and> \<not> Inline (Opts f) \<and> Param (Opts f) = [] \<and> fType f = TString)"

definition accepts :: "fieldInfo \<Rightarrow> string \<Rightarrow> bool" where
  "accepts f s =
     ((Length (Opts f) = 0 \<or> length s = Length (Opts f)) \<and>
      (case oEncoding (Opts f) of None \<Rightarrow> True | Some enc \<Rightarrow> IndexAnyInvalid enc s = None))"

definition required :: "fieldInfo \<Rightarrow> bool" where
  "required f = (\<not> OmitEmpty (Opts f) \<and> \<not> Group (Opts f) \<and> \<not> Inline (Opts f))"

definition mandatory :: "fieldInfo \<Rightarrow> bool" where
  "mandatory f = (\<not> OmitEmpty (Opts f))"

definition optional :: "fieldInfo \<Rightarrow> bool" where
  "optional f = OmitEmpty (Opts f)"

text \<open>
  The required fields and the first \<open>n\<close> optional fields of a list, in the order of the
  list; and the struct after storing values in fields, pair by pair.
\<close>

fun selectFields :: "nat \<Rightarrow> fieldInfo list \<Rightarrow> fieldInfo list" where
  "selectFields n [] = []"
| "selectFields n (f # fs) =
     (if OmitEmpty (Opts f)
      then (case n of 0 \<Rightarrow> selectFields 0 fs | Suc m \<Rightarrow> f # selectFields m fs)
      else f # selectFields n fs)"

fun assign :: "(fieldInfo \<times> ValueNode) list \<Rightarrow> gostruct \<Rightarrow> gostruct" where
  "assign [] v = v"
| "assign ((f, x) # ps) v = assign ps (v(Index f := VString (Value x)))"

lemma unmarshal_positional:
  assumes "positional f" and "accepts f (Value x)" and "\<not> readOnly (tiType ti) (Index f)"
  shows "unmarshal (NValue x) ti f old = Inr (VString (Value x), NValue x)"
  using assms
  by (auto simp: unmarshal_def positional_def accepts_def nodeString_def storeKind_def Let_def
      split: option.splits)

lemma putValue_same:
  "i < length fs \<Longrightarrow> fs ! i = FValue x \<Longrightarrow> putValue fs i j (NValue x) = fs"
  by (simp add: putValue_def list_update_same_conv)

lemma step_eof:
  assumes "group st = None" and "length (frags st) \<le> fragIdx st" and "OmitEmpty (Opts f)"
  shows "unmarshalField hash ti f st = Inr st"
  using assms by (simp add: unmarshalField_def)

lemma step_skip:
  assumes "group st = None" and "fragIdx st < length (frags st)" and "OmitEmpty (Opts f)"
    and "numValues st - numReqValues st \<le> 0"
  shows "unmarshalField hash ti f st = Inr (st\<lparr>numValues := numValues st - 1\<rparr>)"
  using assms by (simp add: unmarshalField_def)

lemma step_consume:
  assumes "positional f" and "accepts f (Value x)"
    and "group st = None" and "fragIdx st < length (frags st)"
    and "frags st ! fragIdx st = FValue x"
    and "\<not> (OmitEmpty (Opts f) \<and> numValues st - numReqValues st \<le> 0)"
    and "settable ti (val st) f"
  shows "unmarshalField hash ti f st =
           Inr (st\<lparr>val := (val st)(Index f := VString (Value x)),
                   frags := frags st,
                   numValues := numValues st - 1,
                   numReqValues :=
                     (if \<not> OmitEmpty (Opts f) then numReqValues st - 1 else numReqValues st),
                   fragIdx := fragIdx st + 1\<rparr>)"
proof -
  have p: "\<not> Group (Opts f)" "\<not> Inline (Opts f)" "Param (Opts f) = []"
    using assms(1) by (simp_all add: positional_def)
  have u: "unmarshalValue ti f x st =
           Inr (st\<lparr>val := (val st)(Index f := VString (Value x)),
                   frags := frags st,
                   numValues := numValues st - 1,
                   numReqValues :=
                     (if \<not> OmitEmpty (Opts f) then numReqValues st - 1 else numReqValues st),
                   fragIdx := fragIdx st + 1\<rparr>)"
    using p assms(4,5,7)
    by (simp add: unmarshalValue_def unmarshal_positional [OF assms(1,2)] putValue_same
        settable_def)
  show ?thesis
    using assms(3,4,5,6) p u
    by (auto simp: unmarshalField_def)
qed


lemma positional_loop:
  assumes "\<forall>f \<in> set fs. positional f \<and> (\<forall>x \<in> set vs. accepts f (Value x)) \<and>
                         settable ti (val st) f"
    and "group st = None" and "frags st = map FValue vs"
    and "fragIdx st + rem = length vs"
    and "numReqValues st = int (length (filter mandatory fs))"
    and "length (filter mandatory fs) \<le> rem" and "rem \<le> length fs"
    and "numValues st \<le> int rem"
    and "numValues st < int rem \<longrightarrow> rem = length (filter mandatory fs)"
  shows "\<exists>st'. unmarshalFields hash ti fs st = Inr st' \<and> fragIdx st' = length vs \<and>
               group st' = None \<and> frags st' = map FValue vs \<and>
               val st' =
                 assign (zip (selectFields (rem - length (filter mandatory fs)) fs)
                             (drop (fragIdx st) vs)) (val st)"
  using assms
proof (induction fs arbitrary: st rem)
  case Nil
  then show ?case by simp
next
  case (Cons f fs)
  let ?R = "length (filter mandatory fs)"
  have pf: "positional f" and af: "\<forall>x \<in> set vs. accepts f (Value x)"
    and sf: "settable ti (val st) f"
    and rest: "\<forall>f \<in> set fs. positional f \<and> (\<forall>x \<in> set vs. accepts f (Value x)) \<and>
                             settable ti (val st) f"
    using Cons.prems(1) by simp_all
  note g = Cons.prems(2) and fr = Cons.prems(3) and idx = Cons.prems(4)
  show ?case
  proof (cases "rem = 0")
    case True
    with Cons.prems(6) have opt: "OmitEmpty (Opts f)"
      by (auto simp: mandatory_def split: if_splits)
    have eof: "unmarshalField hash ti f st = Inr st"
      using step_eof [OF g _ opt] idx True fr by simp
    have "\<exists>st'. unmarshalFields hash ti fs st = Inr st' \<and> fragIdx st' = length vs \<and>
               group st' = None \<and> frags st' = map FValue vs \<and>
               val st' = assign (zip (selectFields (rem - ?R) fs) (drop (fragIdx st) vs)) (val st)"
      using Cons.prems opt True
      by (intro Cons.IH [OF rest g fr idx]) (simp_all add: mandatory_def)
    then show ?thesis
      using eof opt True by (simp add: mandatory_def)
  next
    case False
    then have lt: "fragIdx st < length (frags st)"
      using idx fr by simp
    define x where "x = vs ! fragIdx st"
    have fx: "frags st ! fragIdx st = FValue x"
      using lt fr by (simp add: x_def)
    have ax: "accepts f (Value x)"
      using af lt fr by (simp add: x_def)
    have dr: "drop (fragIdx st) vs = x # drop (Suc (fragIdx st)) vs"
      using lt fr by (simp add: x_def Cons_nth_drop_Suc)
    let ?st2 = "st\<lparr>val := (val st)(Index f := VString (Value x)),
                   frags := frags st,
                   numValues := numValues st - 1,
                   numReqValues :=
                     (if \<not> OmitEmpty (Opts f) then numReqValues st - 1 else numReqValues st),
                   fragIdx := fragIdx st + 1\<rparr>"
    have rest2: "\<forall>f \<in> set fs. positional f \<and> (\<forall>x \<in> set vs. accepts f (Value x)) \<and>
                             settable ti (val ?st2) f"
      using rest by (simp add: settable_update)
    show ?thesis
    proof (cases "OmitEmpty (Opts f)")
      case opt: True
      then have R: "length (filter mandatory (f # fs)) = ?R"
        by (simp add: mandatory_def)
      show ?thesis
      proof (cases "numValues st - numReqValues st \<le> 0")
        case True
        have eq: "rem = ?R"
          using True Cons.prems(5,6,8,9) R by auto
        let ?st1 = "st\<lparr>numValues := numValues st - 1\<rparr>"
        have rest1: "\<forall>f \<in> set fs. positional f \<and> (\<forall>x \<in> set vs. accepts f (Value x)) \<and>
                             settable ti (val ?st1) f"
          using rest by simp
        have sk: "unmarshalField hash ti f st = Inr ?st1"
          by (rule step_skip [OF g lt opt True])
        have "\<exists>st'. unmarshalFields hash ti fs ?st1 = Inr st' \<and> fragIdx st' = length vs \<and>
               group st' = None \<and> frags st' = map FValue vs \<and>
               val st' = assign (zip (selectFields (rem - ?R) fs) (drop (fragIdx ?st1) vs)) (val ?st1)"
          using Cons.prems R eq g fr idx
          by (intro Cons.IH [OF rest1]) simp_all
        then show ?thesis
          using sk opt eq R by simp
      next
        case nskip: False
        have gt: "?R < rem" and nv: "numValues st = int rem"
          using nskip Cons.prems(5,6,8,9) R by auto
        obtain m where m: "rem = Suc m" using False by (cases rem) auto
        have co: "unmarshalField hash ti f st = Inr ?st2"
          using nskip sf by (intro step_consume [OF pf ax g lt fx]) simp_all
        have "\<exists>st'. unmarshalFields hash ti fs ?st2 = Inr st' \<and> fragIdx st' = length vs \<and>
               group st' = None \<and> frags st' = map FValue vs \<and>
               val st' = assign (zip (selectFields (m - ?R) fs) (drop (fragIdx ?st2) vs)) (val ?st2)"
          using Cons.prems R g fr idx gt nv m opt
          by (intro Cons.IH [OF rest2]) simp_all
        moreover have "rem - ?R = Suc (m - ?R)"
          using gt m by simp
        ultimately show ?thesis
          using co opt R dr by simp
      qed
    next
      case req: False
      then have R: "length (filter mandatory (f # fs)) = Suc ?R"
        by (simp add: mandatory_def)
      obtain m where m: "rem = Suc m" using False by (cases rem) auto
      have co: "unmarshalField hash ti f st = Inr ?st2"
        using req sf by (intro step_consume [OF pf ax g lt fx]) simp_all
      have "\<exists>st'. unmarshalFields hash ti fs ?st2 = Inr st' \<and> fragIdx st' = length vs \<and>
               group st' = None \<and> frags st' = map FValue vs \<and>
               val st' = assign (zip (selectFields (m - ?R) fs) (drop (fragIdx ?st2) vs)) (val ?st2)"
        using Cons.prems R g fr idx m req
        by (intro Cons.IH [OF rest2]) auto
      moreover have "rem - Suc ?R = m - ?R"
        using m by simp
      ultimately show ?thesis
        using co req R dr by simp
    qed
  qed
qed


lemma filter_mandatory_select: "filter mandatory (selectFields n fs) = filter mandatory fs"
  by (induction fs arbitrary: n) (auto simp: mandatory_def split: nat.splits)

lemma filter_optional_select: "filter optional (selectFields n fs) = take n (filter optional fs)"
  by (induction fs arbitrary: n) (auto simp: optional_def split: nat.splits)

lemma set_select: "set (selectFields n fs) \<subseteq> set fs"
  by (induction fs arbitrary: n) (auto split: nat.splits)

lemma distinct_select:
  "distinct (map Index fs) \<Longrightarrow> distinct (map Index (selectFields n fs))"
proof (induction fs arbitrary: n)
  case Nil
  then show ?case by simp
next
  case (Cons f fs)
  have "Index f \<notin> Index ` set (selectFields m fs)" for m
    using Cons.prems set_select [of m fs] by auto
  with Cons show ?case
    by (auto split: nat.splits)
qed

lemma length_select:
  "length (selectFields n fs) = length (filter mandatory fs) + min n (length (filter optional fs))"
  by (induction fs arbitrary: n) (auto simp: mandatory_def optional_def split: nat.splits)

lemma assign_other: "i \<notin> Index ` fst ` set ps \<Longrightarrow> assign ps v i = v i"
  by (induction ps arbitrary: v) auto

lemma assign_zip:
  "distinct (map Index fs) \<Longrightarrow> length fs = length vs \<Longrightarrow>
     map (\<lambda>f. assign (zip fs vs) v (Index f)) fs = map (\<lambda>x. VString (Value x)) vs"
proof (induction fs arbitrary: vs v)
  case Nil
  then show ?case by simp
next
  case (Cons f fs)
  then obtain x xs where vs: "vs = x # xs" by (cases vs) auto
  have d: "distinct (map Index fs)" and n: "Index f \<notin> Index ` set fs" and l: "length fs = length xs"
    using Cons.prems vs by auto
  have "Index f \<notin> Index ` fst ` set (zip fs xs)"
    using n by (auto dest: set_zip_leftD)
  then have h: "assign (zip fs xs) (v(Index f := VString (Value x))) (Index f) = VString (Value x)"
    by (simp add: assign_other)
  have ih: "map (\<lambda>g. assign (zip fs xs) (v(Index f := VString (Value x))) (Index g)) fs =
            map (\<lambda>x. VString (Value x)) xs"
    by (rule Cons.IH [OF d l])
  show ?case
    unfolding vs by (simp add: h ih)
qed


lemma length_mandatory_optional:
  "length fs = length (filter mandatory fs) + length (filter optional fs)"
  by (induction fs) (auto simp: mandatory_def optional_def)

lemma positional_required: "positional f \<Longrightarrow> required f = mandatory f"
  by (simp add: positional_def required_def mandatory_def)

lemma filter_required_positional:
  "\<forall>f \<in> set fs. positional f \<Longrightarrow> filter required fs = filter mandatory fs"
  by (rule filter_cong) (simp_all add: positional_required)

text \<open>
  The skip rule on schemas without groups. An \<open>omitempty\<close> field that \<open>Unmarshal\<close> reaches
  with no group open and a fragment at the cursor is skipped, without taking the fragment,
  when \<open>numValues - numReqValues \<le> 0\<close>; the skip decrements \<open>numValues\<close>. For a schema of
  positional string fields with distinct index paths that can be set, whose
  \<open>NumReqValues\<close> is the number of its required fields, and \<open>k\<close> value fragments that every
  field accepts, with \<open>|R| \<le> k \<le> |R| + |O|\<close>: \<open>Unmarshal\<close> succeeds, the fields that take a
  fragment are all required fields and the first \<open>k - |R|\<close> optional fields, they take the
  fragments from left to right, and every other optional field keeps its value.
\<close>

theorem optional_fields_filled_in_order:
  "(group st = None \<and> fragIdx st < length (frags st) \<and> OmitEmpty (Opts f) \<and>
    numValues st - numReqValues st \<le> 0 \<longrightarrow>
      unmarshalField hash ti f st = Inr (st\<lparr>numValues := numValues st - 1\<rparr>)) \<and>
   ((\<forall>f \<in> set (Fields ti). positional f \<and> (\<forall>x \<in> set vs. accepts f (Value x)) \<and>
                                settable ti v1 f) \<and>
    distinct (map Index (Fields ti)) \<and>
    Fragments tr = map FValue vs \<and>
    NumReqValues ti = int (length (filter required (Fields ti))) \<and>
    length (filter required (Fields ti)) \<le> length vs \<and>
    length vs \<le> length (Fields ti) \<and>
    unmarshalPrefix hash ti tr v = Inr v1 \<longrightarrow>
      (\<exists>sel v'. sel = selectFields (length vs - length (filter required (Fields ti))) (Fields ti) \<and>
         unmarshalTree ti hash tr v = Inr v' \<and>
         v' = assign (zip sel vs) v1 \<and>
         filter required sel = filter required (Fields ti) \<and>
         filter optional sel =
           take (length vs - length (filter required (Fields ti))) (filter optional (Fields ti)) \<and>
         map (\<lambda>f. v' (Index f)) sel = map (\<lambda>x. VString (Value x)) vs \<and>
         (\<forall>f \<in> set (Fields ti). f \<notin> set sel \<longrightarrow> v' (Index f) = v1 (Index f))))"
proof (intro conjI impI)
  assume "group st = None \<and> fragIdx st < length (frags st) \<and> OmitEmpty (Opts f) \<and>
    numValues st - numReqValues st \<le> 0"
  then show "unmarshalField hash ti f st = Inr (st\<lparr>numValues := numValues st - 1\<rparr>)"
    by (intro step_skip) simp_all
next
  let ?fs = "Fields ti"
  let ?n = "length vs - length (filter required ?fs)"
  let ?sel = "selectFields ?n ?fs"
  assume h: "(\<forall>f \<in> set ?fs. positional f \<and> (\<forall>x \<in> set vs. accepts f (Value x)) \<and>
                               settable ti v1 f) \<and>
    distinct (map Index ?fs) \<and>
    Fragments tr = map FValue vs \<and>
    NumReqValues ti = int (length (filter required ?fs)) \<and>
    length (filter required ?fs) \<le> length vs \<and>
    length vs \<le> length ?fs \<and>
    unmarshalPrefix hash ti tr v = Inr v1"
  then have pos: "\<forall>f \<in> set ?fs. positional f" by simp
  have rm: "filter required ?fs = filter mandatory ?fs"
    by (rule filter_required_positional [OF pos])
  let ?st = "initialState ti tr v1"
  have "\<exists>st'. unmarshalFields hash ti ?fs ?st = Inr st' \<and> fragIdx st' = length vs \<and>
               group st' = None \<and> frags st' = map FValue vs \<and>
               val st' =
                 assign (zip (selectFields (length vs - length (filter mandatory ?fs)) ?fs)
                             (drop (fragIdx ?st) vs)) (val ?st)"
    using h rm by (intro positional_loop) (simp_all add: initialState_def)
  then obtain st' where st': "unmarshalFields hash ti ?fs ?st = Inr st'"
    "fragIdx st' = length vs" "group st' = None" "frags st' = map FValue vs"
    "val st' = assign (zip ?sel vs) v1"
    by (auto simp: initialState_def rm)
  have fin: "unmarshalFinish ti st' = Inr (val st')"
    using st'(2,3,4) by (simp add: unmarshalFinish_def)
  have res: "unmarshalTree ti hash tr v = Inr (assign (zip ?sel vs) v1)"
    using h st'(1,5) fin by (simp add: unmarshalTree_def)
  have fr: "filter required ?sel = filter required ?fs"
  proof -
    have "\<forall>f \<in> set ?sel. positional f" using pos set_select by blast
    then have "filter required ?sel = filter mandatory ?sel"
      by (rule filter_required_positional)
    then show ?thesis by (simp add: filter_mandatory_select rm)
  qed
  have fo: "filter optional ?sel = take ?n (filter optional ?fs)"
    by (rule filter_optional_select)
  have len: "length ?sel = length vs"
  proof -
    have "length ?fs = length (filter mandatory ?fs) + length (filter optional ?fs)"
      by (rule length_mandatory_optional)
    moreover have "length (filter mandatory ?fs) \<le> length vs" and "length vs \<le> length ?fs"
      using h rm by simp_all
    ultimately show ?thesis
      unfolding length_select rm by linarith
  qed
  have d: "distinct (map Index ?sel)"
    using h by (intro distinct_select) simp
  have mp: "map (\<lambda>f. assign (zip ?sel vs) v1 (Index f)) ?sel = map (\<lambda>x. VString (Value x)) vs"
    by (rule assign_zip [OF d len])
  have ot: "\<forall>f \<in> set ?fs. f \<notin> set ?sel \<longrightarrow> assign (zip ?sel vs) v1 (Index f) = v1 (Index f)"
  proof (intro ballI impI)
    fix f assume f: "f \<in> set ?fs" "f \<notin> set ?sel"
    have "Index f \<notin> Index ` set ?sel"
    proof
      assume "Index f \<in> Index ` set ?sel"
      then obtain g where g: "g \<in> set ?sel" "Index g = Index f" by auto
      then have "g \<in> set ?fs" using set_select by blast
      with f(1) g(2) h have "g = f"
        by (metis distinct_map inj_onD)
      with g(1) f(2) show False by simp
    qed
    then have "Index f \<notin> Index ` fst ` set (zip ?sel vs)"
      by (auto dest: set_zip_leftD)
    then show "assign (zip ?sel vs) v1 (Index f) = v1 (Index f)"
      by (rule assign_other)
  qed
  show "\<exists>sel v'. sel = ?sel \<and>
         unmarshalTree ti hash tr v = Inr v' \<and>
         v' = assign (zip sel vs) v1 \<and>
         filter required sel = filter required ?fs \<and>
         filter optional sel = take ?n (filter optional ?fs) \<and>
         map (\<lambda>f. v' (Index f)) sel = map (\<lambda>x. VString (Value x)) vs \<and>
         (\<forall>f \<in> set ?fs. f \<notin> set sel \<longrightarrow> v' (Index f) = v1 (Index f))"
    using res fr fo mp ot by blast
qed


text \<open>Scenario 2: the input "$test$a$b$c" gives A = "a", B = "b", C = "c", and no optional
  field is filled.\<close>

theorem optional_fields_scenario:
  "Unmarshal ''$test$a$b$c'' typeOptional zeroStrings =
     Inr (zeroStrings([0] := VString ''$test$'', [1] := VString ''a'', [4] := VString ''b'',
                      [6] := VString ''c''))"
proof -
  let ?vs = "[\<lparr>Value = ''a'', vPos = 6, vEnd = 7\<rparr>, \<lparr>Value = ''b'', vPos = 8, vEnd = 9\<rparr>,
              \<lparr>Value = ''c'', vPos = 10, vEnd = 11\<rparr>]"
  let ?v1 = "zeroStrings([0] := VString ''$test$'')"
  let ?fs = "Fields schemaOptional"
  have fs: "?fs = [stringField 1 ''A'' stringOpts, optionalField 2 ''O1'', optionalField 3 ''O2'',
                stringField 4 ''B'' stringOpts, optionalField 5 ''O3'',
                stringField 6 ''C'' stringOpts, optionalField 7 ''O4'', optionalField 8 ''O5'',
                optionalField 9 ''O6'']"
    by (simp add: schemaOptional_def)
  have 1: "\<forall>f \<in> set ?fs. positional f \<and> (\<forall>x \<in> set ?vs. accepts f (Value x)) \<and>
                          settable schemaOptional ?v1 f"
    unfolding fs
    by (simp add: positional_def accepts_def optionalField_def stringField_def stringOpts_def
        encoder_def encoderHash_def settable_def schemaOptional_def types_eval)
  have 2: "distinct (map Index ?fs)"
    unfolding fs by (simp add: optionalField_def stringField_def)
  have 3: "Fragments treeABC = map FValue ?vs"
    by (simp add: treeABC_def)
  have rq: "filter required ?fs =
              [stringField 1 ''A'' stringOpts, stringField 4 ''B'' stringOpts,
               stringField 6 ''C'' stringOpts]"
    unfolding fs by (simp add: required_def optionalField_def stringField_def stringOpts_def)
  have 4: "NumReqValues schemaOptional = int (length (filter required ?fs))"
    unfolding rq by (simp add: schemaOptional_def)
  have 5: "length (filter required ?fs) \<le> length ?vs" and 6: "length ?vs \<le> length ?fs"
    unfolding rq by (simp_all add: fs)
  have 7: "unmarshalPrefix ''$test$a$b$c'' schemaOptional treeABC zeroStrings = Inr ?v1"
    by (simp add: schemaOptional_def treeABC_def unmarshal_eval)
  have sel: "selectFields (length ?vs - length (filter required ?fs)) ?fs =
               [stringField 1 ''A'' stringOpts, stringField 4 ''B'' stringOpts,
                stringField 6 ''C'' stringOpts]"
    unfolding rq unfolding fs
    by (simp add: optionalField_def stringField_def stringOpts_def)
  from optional_fields_filled_in_order
        [where ti = schemaOptional and vs = ?vs and tr = treeABC and hash = "''$test$a$b$c''"
           and v = zeroStrings and ?v1.0 = ?v1]
       1 2 3 4 5 6 7
  have "unmarshalTree schemaOptional ''$test$a$b$c'' treeABC zeroStrings =
          Inr (assign (zip (selectFields (length ?vs - length (filter required ?fs)) ?fs) ?vs) ?v1)"
    by blast
  then have "unmarshalTree schemaOptional ''$test$a$b$c'' treeABC zeroStrings =
          Inr (zeroStrings([0] := VString ''$test$'', [1] := VString ''a'', [4] := VString ''b'',
                      [6] := VString ''c''))"
    unfolding sel by (simp add: stringField_def)
  then show ?thesis
    by (simp add: Unmarshal_def Parse_test_abc compile_Optional)
qed


text \<open>
  C1. The rule compares two counters: \<open>numValues\<close> starts at the number of all fragments
  and decreases only when a value is taken or skipped, so the fragment of a group stays
  counted. With the fields G (grouped), R, O (optional), A and the input "x=1$r$a", at O
  one fragment remains and one required field remains, so that the rule of C1 skips O;
  but \<open>numValues - numReqValues\<close> is 1: O takes "a", and A fails with "unexpected EOF".
  The input is the text that \<open>Marshal\<close> writes for G = "1", R = "r", A = "a" and an empty
  O.
\<close>

theorem optional_after_group_not_skipped:
  "unmarshalFields ''x=1$r$a'' schemaGroupOptional
     [stringField 0 ''G'' (stringOpts\<lparr>Group := True, Param := ''x''\<rparr>),
      stringField 1 ''R'' stringOpts]
     (initialState schemaGroupOptional \<lparr>Prefix = None, Fragments = fragmentsX1RA\<rparr> zeroStrings) =
     Inr stateAtO \<and>
   group stateAtO = None \<and>
   OmitEmpty (Opts (optionalField 2 ''O'')) \<and>
   \<not> Group (Opts (optionalField 2 ''O'')) \<and>
   int (length (frags stateAtO) - fragIdx stateAtO) -
     int (length (filter required [stringField 3 ''A'' stringOpts])) \<le> 0 \<and>
   unmarshalField ''x=1$r$a'' schemaGroupOptional (optionalField 2 ''O'') stateAtO =
     Inr (stateAtO\<lparr>val := (val stateAtO)([2] := VString ''a''), numValues := 1, fragIdx := 3\<rparr>) \<and>
   Unmarshal ''x=1$r$a'' typeGroupOptional zeroStrings =
     Inl (UnmarshalType \<lparr>ueValue = ''EOF'', ueType = TString, ueOffset = 7,
                          ueStruct = Some (TPtr typeGroupOptional), ueField = ''A'',
                          ueMsg = Msg ''unexpected EOF''\<rparr>) \<and>
   Marshal (TPtr typeGroupOptional)
     (zeroStrings([0] := VString ''1'', [1] := VString ''r'', [3] := VString ''a'')) =
     Inr ''x=1$r$a''"
proof (intro conjI)
  show "unmarshalFields ''x=1$r$a'' schemaGroupOptional
     [stringField 0 ''G'' (stringOpts\<lparr>Group := True, Param := ''x''\<rparr>),
      stringField 1 ''R'' stringOpts]
     (initialState schemaGroupOptional \<lparr>Prefix = None, Fragments = fragmentsX1RA\<rparr> zeroStrings) =
     Inr stateAtO"
    by (simp add: schemaGroupOptional_def fragmentsX1RA_def stateAtO_def unmarshal_eval)
  show "group stateAtO = None"
    by (simp add: stateAtO_def)
  show "OmitEmpty (Opts (optionalField 2 ''O''))" and "\<not> Group (Opts (optionalField 2 ''O''))"
    by (simp_all add: optionalField_def stringField_def stringOpts_def)
  show "int (length (frags stateAtO) - fragIdx stateAtO) -
     int (length (filter required [stringField 3 ''A'' stringOpts])) \<le> 0"
    by (simp add: stateAtO_def fragmentsX1RA_def required_def stringField_def stringOpts_def)
  show "unmarshalField ''x=1$r$a'' schemaGroupOptional (optionalField 2 ''O'') stateAtO =
     Inr (stateAtO\<lparr>val := (val stateAtO)([2] := VString ''a''), numValues := 1, fragIdx := 3\<rparr>)"
    by (simp add: schemaGroupOptional_def fragmentsX1RA_def stateAtO_def optionalField_def
        unmarshal_eval)
  show "Unmarshal ''x=1$r$a'' typeGroupOptional zeroStrings =
     Inl (UnmarshalType \<lparr>ueValue = ''EOF'', ueType = TString, ueOffset = 7,
                          ueStruct = Some (TPtr typeGroupOptional), ueField = ''A'',
                          ueMsg = Msg ''unexpected EOF''\<rparr>)"
    unfolding Unmarshal_def Parse_x1_r_a compile_GroupOptional
    by (simp add: schemaGroupOptional_def fragmentsX1RA_def optionalField_def unmarshal_eval)
  show "Marshal (TPtr typeGroupOptional)
     (zeroStrings([0] := VString ''1'', [1] := VString ''r'', [3] := VString ''a'')) =
     Inr ''x=1$r$a''"
    unfolding Marshal_def compile_GroupOptional
    by (simp add: schemaGroupOptional_def optionalField_def marshal_eval)
qed


section \<open>From Unmarshal back to Marshal\<close>


definition pieces :: "FragmentNode \<Rightarrow> string list" where
  "pieces f = (case f of FValue x \<Rightarrow> [Value x] | FGroup vs \<Rightarrow> map Value vs)"




text \<open>
  The pieces of the input that \<open>Unmarshal\<close> has not read yet, in a state of its loop: the
  fragments from the cursor on, in an open group the values that are still counted in
  \<open>numGroupValues\<close>. \<open>readNode\<close> is the value node that a round of the loop passes to
  \<open>unmarshal\<close> for the field \<open>f\<close>, if any: it follows the branches of the body of the loop
  (closing the group, the end of the fragments, the rule that skips an optional field, a
  grouped field looking for its param in the group, a field that is not grouped taking
  the value at the cursor). \<open>written\<close> is the text that \<open>Marshal\<close> writes for a field with
  the value \<open>x\<close>, with the name of its param, or \<open>None\<close> when it omits the field or fails.
\<close>

definition unread :: "ustate \<Rightarrow> string list list" where
  "unread st =
     (case group st of
        None \<Rightarrow> map pieces (drop (fragIdx st) (frags st))
      | Some g \<Rightarrow>
          (let ps = pieces (frags st ! g);
               u = drop (length ps - nat (numGroupValues st)) ps
           in (if u = [] then [] else [u]) @ map pieces (drop (Suc g) (frags st))))"

definition readNode :: "fieldInfo \<Rightarrow> ustate \<Rightarrow> ValueNode option" where
  "readNode f st =
     (let closing = (\<not> Group (Opts f) \<and> group st \<noteq> None);
          i = (if closing then fragIdx st + 1 else fragIdx st);
          g = (if closing then None else group st)
      in if i \<ge> length (frags st) then None
         else if OmitEmpty (Opts f) \<and> g = None \<and> numValues st - numReqValues st \<le> 0 then None
         else case frags st ! i of
                FGroup vs \<Rightarrow>
                  if Group (Opts f)
                  then find (\<lambda>x. HasPrefix (Value x) (Param (Opts f) @ ''=''))
                         (case g of None \<Rightarrow> vs | Some k \<Rightarrow> groupValues (frags st ! k))
                  else None
              | FValue x \<Rightarrow>
                  if Group (Opts f) then
                    (if \<not> OmitEmpty (Opts f) \<and> HasPrefix (Value x) (Param (Opts f) @ ''='')
                     then Some x else None)
                  else if Param (Opts f) = [] \<or> HasPrefix (Value x) (Param (Opts f)) then Some x
                  else None)"

definition written :: "gotype \<Rightarrow> fieldInfo \<Rightarrow> goval \<Rightarrow> string option" where
  "written t f x =
     (if OmitEmpty (Opts f) \<and> isEmpty x then None
      else case marshalValue t f (indirect x) of Inl e \<Rightarrow> None | Inr s \<Rightarrow> Some (render f s))"

text \<open>
  \<open>advance inl w u u'\<close>: the unread pieces \<open>u\<close> lose the text \<open>w\<close> at their front and become
  \<open>u'\<close>; an inline field takes \<open>w\<close> from the front of the first piece. \<open>canonicalRun\<close> holds
  when in every round of the loop in which a field reads a value, \<open>Marshal\<close> writes the value
  stored in the field, and what it writes is the front of the unread pieces.
\<close>

definition advance :: "bool \<Rightarrow> string \<Rightarrow> string list list \<Rightarrow> string list list \<Rightarrow> bool" where
  "advance inl w u u' =
     (case u of
        (x # xs) # rest \<Rightarrow>
          if inl then take (length w) x = w \<and> u' = (drop (length w) x # xs) # rest
          else x = w \<and> u' = (if xs = [] then rest else xs # rest)
      | _ \<Rightarrow> False)"

fun canonicalRun :: "gotype \<Rightarrow> string \<Rightarrow> typeInfo \<Rightarrow> fieldInfo list \<Rightarrow> ustate \<Rightarrow> bool" where
  "canonicalRun t hash ti [] st = True"
| "canonicalRun t hash ti (f # fs) st =
     (case unmarshalField hash ti f st of
        Inl e \<Rightarrow> True
      | Inr st' \<Rightarrow>
          (case readNode f st of
             None \<Rightarrow> True
           | Some x \<Rightarrow>
               (case written t f (val st' (Index f)) of
                  None \<Rightarrow> False
                | Some w \<Rightarrow> advance (Inline (Opts f)) w (unread st) (unread st'))) \<and>
          canonicalRun t hash ti fs st')"

text \<open>
  A grouped field is followed by a grouped field, or no grouped field comes before the
  next required field (\<open>groupsApart\<close>): \<open>Marshal\<close> joins two grouped fields by a comma
  when only omitted fields lie between them, whatever the input had there.
\<close>

fun optionalGap :: "fieldInfo list \<Rightarrow> bool" where
  "optionalGap [] = True"
| "optionalGap (f # fs) =
     (if Group (Opts f) then False else if OmitEmpty (Opts f) then optionalGap fs else True)"

definition afterRun :: "fieldInfo list \<Rightarrow> bool" where
  "afterRun fs = ((fs \<noteq> [] \<and> Group (Opts (hd fs))) \<or> optionalGap fs)"

fun groupsApart :: "fieldInfo list \<Rightarrow> bool" where
  "groupsApart [] = True"
| "groupsApart (f # fs) = ((Group (Opts f) \<longrightarrow> afterRun fs) \<and> groupsApart fs)"





definition wfState :: "ustate \<Rightarrow> bool" where
  "wfState st =
     ((\<forall>g. group st = Some g \<longrightarrow>
          g = fragIdx st \<and> g < length (frags st) \<and>
          numGroupValues st \<le> int (length (pieces (frags st ! g)))) \<and>
      (\<forall>vs. FGroup vs \<in> set (frags st) \<longrightarrow> vs \<noteq> []))"

definition closeGroup :: "fieldInfo \<Rightarrow> ustate \<Rightarrow> ustate" where
  "closeGroup f st =
     (if \<not> Group (Opts f) \<and> group st \<noteq> None
      then st\<lparr>fragIdx := fragIdx st + 1, group := None\<rparr> else st)"



definition openGroup :: "ustate \<Rightarrow> ustate" where
  "openGroup st =
     (case frags st ! fragIdx st of
        FGroup vs \<Rightarrow>
          if group st = None
          then st\<lparr>group := Some (fragIdx st), numGroupValues := int (length vs)\<rparr>
          else st
      | FValue v \<Rightarrow> st\<lparr>group := Some (fragIdx st), numGroupValues := 1\<rparr>)"







subsection \<open>Lists\<close>








subsection \<open>One call of unmarshal\<close>






subsection \<open>One round of the loop\<close>




lemma pieces_groupValues: "map Value (groupValues fr) = pieces fr"
  by (cases fr) (simp_all add: groupValues_def pieces_def)




lemma closed_fields [simp]:
  "val (closeGroup f st) = val st" "frags (closeGroup f st) = frags st"
  "numValues (closeGroup f st) = numValues st" "numReqValues (closeGroup f st) = numReqValues st"
  "numGroupValues (closeGroup f st) = numGroupValues st"
  by (simp_all add: closeGroup_def)



text \<open>Opening a group.\<close>

lemma opened_fields [simp]:
  "val (openGroup st) = val st" "frags (openGroup st) = frags st" "fragIdx (openGroup st) = fragIdx st"
  by (simp_all add: openGroup_def split: FragmentNode.splits)






text \<open>The state after a grouped field has read a value of the open group.\<close>

lemma unread_group:
  assumes "group st = Some g"
  shows "unread st =
           (let ps = pieces (frags st ! g); u = drop (length ps - nat (numGroupValues st)) ps
            in (if u = [] then [] else [u]) @ map pieces (drop (Suc g) (frags st)))"
  using assms by (simp add: unread_def)






lemma unread_numValues [simp]: "unread (st\<lparr>numValues := nv\<rparr>) = unread st"
  by (cases "group st") (simp_all add: unread_def)

lemma wfState_numValues [simp]: "wfState (st\<lparr>numValues := nv\<rparr>) = wfState st"
  by (simp add: wfState_def)




subsection \<open>The struct during the loop\<close>


subsection \<open>What Marshal has to write, round by round\<close>





subsection \<open>The loop of Marshal follows the loop of Unmarshal\<close>



subsection \<open>Before and after the loop\<close>









subsection \<open>The round trip\<close>




subsection \<open>The tests\<close>







lemmas run_eval = canonicalRun.simps readNode_def written_def advance_def unread_def pieces_def
  render_def marshalValue_def marshal_def isEmpty_def FormatUint_def FormatInt_def
  formatDigits.simps digitChar_def














lemma compile_GroupGap: "getTypeInfo (TPtr typeGroupGap) = Inr schemaGroupGap"
  by (simp add: typeGroupGap_def schemaGroupGap_def schema_eval raw_eval)

lemma Parse_x1_y2:
  "Parse ''x=1$y=2'' =
     Inr \<lparr>Prefix = None, Fragments = [FValue \<lparr>Value = ''x=1'', vPos = 0, vEnd = 3\<rparr>,
                                       FValue \<lparr>Value = ''y=2'', vPos = 4, vEnd = 7\<rparr>]\<rparr>"
  by (simp add: lex_eval)

text \<open>
  The condition on grouped fields is needed: with an optional field between two grouped
  fields, "x=1$y=2" is unmarshaled and marshaled to "x=1,y=2", although every field reads
  the next unread piece and \<open>Marshal\<close> writes it back.
\<close>

lemma grouped_fields_apart:
  "Unmarshal ''x=1$y=2'' typeGroupGap zeroStrings =
     Inr (zeroStrings([0] := VString ''1'', [2] := VString ''2'')) \<and>
   Marshal (TPtr typeGroupGap) (zeroStrings([0] := VString ''1'', [2] := VString ''2'')) =
     Inr ''x=1,y=2'' \<and>
   canonicalRun (TPtr typeGroupGap) ''x=1$y=2'' schemaGroupGap (Fields schemaGroupGap)
     (initialState schemaGroupGap
        \<lparr>Prefix = None, Fragments = [FValue \<lparr>Value = ''x=1'', vPos = 0, vEnd = 3\<rparr>,
                                     FValue \<lparr>Value = ''y=2'', vPos = 4, vEnd = 7\<rparr>]\<rparr>
        zeroStrings) \<and>
   \<not> groupsApart (Fields schemaGroupGap)"
proof (intro conjI)
  show "Unmarshal ''x=1$y=2'' typeGroupGap zeroStrings =
     Inr (zeroStrings([0] := VString ''1'', [2] := VString ''2''))"
    unfolding Unmarshal_def Parse_x1_y2 compile_GroupGap
    by (simp add: schemaGroupGap_def typeGroupGap_def unmarshal_eval)
  show "Marshal (TPtr typeGroupGap) (zeroStrings([0] := VString ''1'', [2] := VString ''2'')) =
     Inr ''x=1,y=2''"
    unfolding Marshal_def compile_GroupGap
    by (simp add: typeGroupGap_def schemaGroupGap_def marshal_eval)
  show "canonicalRun (TPtr typeGroupGap) ''x=1$y=2'' schemaGroupGap (Fields schemaGroupGap)
     (initialState schemaGroupGap
        \<lparr>Prefix = None, Fragments = [FValue \<lparr>Value = ''x=1'', vPos = 0, vEnd = 3\<rparr>,
                                     FValue \<lparr>Value = ''y=2'', vPos = 4, vEnd = 7\<rparr>]\<rparr>
        zeroStrings)"
    by (simp add: schemaGroupGap_def typeGroupGap_def unmarshal_eval run_eval)
  show "\<not> groupsApart (Fields schemaGroupGap)"
    by (simp add: schemaGroupGap_def afterRun_def stringField_def stringOpts_def)
qed

end
